theory Spec2Isabelle
  imports Complex_Main
begin

section \<open>Python string primitives used by the task runner\<close>

text \<open>
  Strings are lists of characters, and a character is a code point below 256 (Latin-1).
  Python's \<open>int()\<close> also accepts the decimal digits and the white space of the rest of
  Unicode, which an 8-bit \<open>char\<close> does not represent.
\<close>

text \<open>
  The white space \<open>int()\<close> skips around a literal: tab, line feed, vertical tab, form
  feed, carriage return, space, and among the code points from 128 to 255 the next-line
  control U+0085 and the no-break space U+00A0.
\<close>

definition is_space :: "char \<Rightarrow> bool" where
  "is_space c =
     (c \<in> set [CHR '' '', CHR 0x09, CHR 0x0A, CHR 0x0B, CHR 0x0C, CHR 0x0D, CHR 0x85, CHR 0xA0])"

definition is_digit :: "char \<Rightarrow> bool" where
  "is_digit c = (c \<in> set ''0123456789'')"

definition digit_value :: "char \<Rightarrow> int" where
  "digit_value c = int (of_char c) - 48"

definition strip :: "string \<Rightarrow> string" where
  "strip s = rev (dropWhile is_space (rev (dropWhile is_space s)))"

text \<open>
  \<open>str.split(sep)\<close> for a one-character separator: the result is never empty, and
  a string with \<open>n\<close> separators has \<open>n + 1\<close> segments, some of them possibly empty.
\<close>

fun split :: "char \<Rightarrow> string \<Rightarrow> string list" where
  "split sep [] = [[]]"
| "split sep (c # cs) =
     (let ps = split sep cs in if c = sep then [] # ps else (c # hd ps) # tl ps)"

text \<open>
  The scan of a base-10 literal after its first digit, with the number of digits seen and
  their value so far: a single underscore may stand between two digits, nowhere else
  (otherwise the result is \<open>None\<close>), and the scan stops at the first character that is
  neither, returning the rest of the string.
\<close>

fun digits :: "string \<Rightarrow> nat \<Rightarrow> int \<Rightarrow> (nat \<times> int \<times> string) option" where
  "digits [] n acc = Some (n, acc, [])"
| "digits (c # cs) n acc =
     (if is_digit c then digits cs (Suc n) (10 * acc + digit_value c)
      else if c = CHR ''_'' then
        (case cs of
           [] \<Rightarrow> None
         | d # ds \<Rightarrow>
             if is_digit d then digits ds (Suc n) (10 * acc + digit_value d) else None)
      else Some (n, acc, c # cs))"

text \<open>
  The errors \<open>parse_task_range\<close> can raise. The first three are Python's
  \<open>ValueError\<close>: the one \<open>int()\<close> raises for a string that is no base-10 literal
  (with the offending string), the one it raises for a literal of more digits than the
  conversion limit allows (with the number of digits), and the one of the range validation
  (with the argument and the number of tasks, which its message shows). \<open>IndexError\<close> is
  what \<open>parts[1]\<close> would raise on a list of one element.
\<close>

datatype error =
    InvalidLiteral string
  | TooManyDigits nat
  | InvalidTaskRange string int
  | IndexError

text \<open>The errors that come from \<open>int()\<close>.\<close>

fun int_error :: "error \<Rightarrow> bool" where
  "int_error (InvalidLiteral s) = True"
| "int_error (TooManyDigits n) = True"
| "int_error _ = False"

text \<open>
  The limit of \<open>int()\<close> on the number of digits of a decimal string, at its default
  (\<open>sys.get_int_max_str_digits()\<close>; the program does not change it).
\<close>

definition int_max_str_digits :: nat where
  "int_max_str_digits = 4300"

text \<open>
  \<open>int(s)\<close> on a string: white space around the literal is skipped, then an optional
  sign, then at least one digit. The digits are scanned first; their number is checked
  against the limit before what follows them is looked at.
\<close>

definition py_int :: "string \<Rightarrow> error + int" where
  "py_int s =
     (let t = strip s;
          (neg, body) =
            (case t of
               [] \<Rightarrow> (False, t)
             | c # r \<Rightarrow> if c = CHR ''+'' then (False, r)
                        else if c = CHR ''-'' then (True, r) else (False, t))
      in case body of
           [] \<Rightarrow> Inl (InvalidLiteral s)
         | c # cs \<Rightarrow>
             if is_digit c then
               (case digits cs 1 (digit_value c) of
                  None \<Rightarrow> Inl (InvalidLiteral s)
                | Some (n, v, rest) \<Rightarrow>
                    if n > int_max_str_digits then Inl (TooManyDigits n)
                    else if rest \<noteq> [] then Inl (InvalidLiteral s)
                    else Inr (if neg then - v else v))
             else Inl (InvalidLiteral s))"

section \<open>The task runner: \<open>main.py\<close>\<close>

subsection \<open>\<open>parse_task_range\<close>\<close>

text \<open>
  Lines 60 to 66: the two indices the argument denotes, before they are validated.
\<close>

definition parse_bounds :: "string \<Rightarrow> error + (int \<times> int)" where
  "parse_bounds task_arg =
     (if CHR ''-'' \<in> set task_arg then
        (case split CHR ''-'' task_arg of
           p0 # p1 # _ \<Rightarrow>
             (case py_int p0 of
                Inl e \<Rightarrow> Inl e
              | Inr start \<Rightarrow>
                  (case py_int p1 of
                     Inl e \<Rightarrow> Inl e
                   | Inr end_idx \<Rightarrow> Inr (start, end_idx)))
         | [p0] \<Rightarrow>
             (case py_int p0 of Inl e \<Rightarrow> Inl e | Inr start \<Rightarrow> Inl IndexError)
         | [] \<Rightarrow> Inl IndexError)
      else
        (case py_int task_arg of
           Inl e \<Rightarrow> Inl e
         | Inr start \<Rightarrow> Inr (start, start)))"

definition parse_task_range :: "string \<Rightarrow> int \<Rightarrow> error + (int \<times> int)" where
  "parse_task_range task_arg max_tasks =
     (case parse_bounds task_arg of
        Inl e \<Rightarrow> Inl e
      | Inr (start, end_idx) \<Rightarrow>
          if start < 1 \<or> end_idx > max_tasks \<or> start > end_idx
          then Inl (InvalidTaskRange task_arg max_tasks)
          else Inr (start, end_idx))"

text \<open>
  What the text calls a decimal integer, written as a grammar of its own: optional white
  space around, an optional sign, and groups of digits separated by single underscores.
  It is compared with \<open>py_int\<close> below: \<open>int()\<close> accepts exactly the decimal integers
  of at most \<open>int_max_str_digits\<close> digits.
\<close>

definition decimal_integer :: "string \<Rightarrow> bool" where
  "decimal_integer s =
     (let t = strip s;
          body = (case t of
                    [] \<Rightarrow> t
                  | c # r \<Rightarrow> if c = CHR ''+'' \<or> c = CHR ''-'' then r else t)
      in body \<noteq> [] \<and>
         (\<forall>g \<in> set (split CHR ''_'' body). g \<noteq> [] \<and> (\<forall>c \<in> set g. is_digit c)))"

text \<open>The \<open>i\<close>-th of the segments \<open>task_arg.split("-")\<close>.\<close>

definition segment :: "nat \<Rightarrow> string \<Rightarrow> string" where
  "segment i task_arg = split CHR ''-'' task_arg ! i"

text \<open>The number of digits of a string.\<close>

definition digit_count :: "string \<Rightarrow> nat" where
  "digit_count s = length (filter is_digit s)"

subsection \<open>The benchmark harness and the agent, as seen from \<open>main\<close>\<close>

text \<open>
  \<open>TaskInfo\<close> and the evaluation of a completed task are records of the \<open>erc3\<close>
  package; only the fields \<open>main\<close> reads are kept. The score is a number that \<open>main\<close>
  only compares with 0.
\<close>

record TaskInfo =
  task_id :: string
  spec_id :: string
  task_text :: string

record TaskEval =
  score :: real
  logs :: string

text \<open>The command line, as \<open>parse_args\<close> returns it.\<close>

record args =
  arg_task :: "string option"
  arg_stop_on_fail :: bool
  arg_list :: bool
  arg_model :: "string option"
  arg_provider :: string

text \<open>
  \<open>run_agent\<close> either returns or raises an \<open>Exception\<close>, whose text is \<open>str(e)\<close>.
  (\<open>KeyboardInterrupt\<close> and \<open>SystemExit\<close> are no \<open>Exception\<close> and are not part of
  the model.)
\<close>

datatype agent_result = Finished | Raised string

text \<open>
  The harness client \<open>core\<close> and the agent live outside the program: they are state
  transformers on an outside world \<open>'w\<close>, about which nothing is assumed. A call of the
  client is assumed to return.
\<close>

record 'w ERC3 =
  start_session :: "string \<Rightarrow> string \<Rightarrow> 'w \<Rightarrow> string \<times> 'w"
  session_status :: "string \<Rightarrow> 'w \<Rightarrow> TaskInfo list \<times> 'w"
  start_task :: "TaskInfo \<Rightarrow> 'w \<Rightarrow> 'w"
  complete_task :: "TaskInfo \<Rightarrow> 'w \<Rightarrow> TaskEval option \<times> 'w"
  submit_session :: "string \<Rightarrow> 'w \<Rightarrow> 'w"

type_synonym 'w agent = "string \<Rightarrow> TaskInfo \<Rightarrow> string \<Rightarrow> 'w \<Rightarrow> agent_result \<times> 'w"

text \<open>
  What a run does, in order: the calls it makes outside, each with what it returned, and
  the lines it prints, one constructor for each \<open>print\<close> of \<open>main\<close> with the values
  it shows.
\<close>

datatype event =
    Call_start_session string string string
  | Call_session_status string "TaskInfo list"
  | Call_start_task TaskInfo
  | Call_run_agent string TaskInfo string agent_result
  | Call_complete_task TaskInfo "TaskEval option"
  | Call_submit_session string
  | Print_provider string string
  | Print_session_tasks nat
  | Print_available
  | Print_task_line int TaskInfo
  | Print_running int int
  | Print_task_header int TaskInfo
  | Print_error string
  | Print_traceback
  | Print_score real string
  | Print_stopping int
  | Print_submitted string
  | Print_not_submitted nat nat string

text \<open>The variables of \<open>main\<close> that its loop changes, with the world and the trace.\<close>

record 'w run =
  world :: 'w
  trace :: "event list"
  completed_count :: nat
  stopped_early :: bool

definition emit :: "event list \<Rightarrow> 'w run \<Rightarrow> 'w run" where
  "emit evs st = st\<lparr>trace := trace st @ evs\<rparr>"

subsection \<open>The loop over the tasks\<close>

text \<open>Lines 140 to 142: the score of a result, 0 when it carries no evaluation.\<close>

definition score_of :: "TaskEval option \<Rightarrow> real" where
  "score_of ev = (case ev of None \<Rightarrow> 0 | Some e \<Rightarrow> score e)"

text \<open>
  Lines 125 to 144, the body of the loop up to the decision to stop: the header, the
  start of the task, the agent in its \<open>try\<close>, the completion, the score.
\<close>

definition run_task ::
  "'w agent \<Rightarrow> 'w ERC3 \<Rightarrow> string \<Rightarrow> string \<Rightarrow> int \<times> TaskInfo \<Rightarrow> 'w run \<Rightarrow> real \<times> 'w run"
where
  "run_task run_agent core model_id provider nt st =
     (let (task_num, task) = nt;
          st1 = emit [Print_task_header task_num task] st;
          st2 = emit [Call_start_task task] (st1\<lparr>world := start_task core task (world st1)\<rparr>);
          (r, w) = run_agent model_id task provider (world st2);
          st3 = emit [Call_run_agent model_id task provider r] (st2\<lparr>world := w\<rparr>);
          st4 = (case r of
                   Finished \<Rightarrow> st3
                 | Raised e \<Rightarrow> emit [Print_error e, Print_traceback] st3);
          (ev, w') = complete_task core task (world st4);
          st5 = emit [Call_complete_task task ev] (st4\<lparr>world := w'\<rparr>);
          st6 = st5\<lparr>completed_count := completed_count st5 + 1\<rparr>;
          st7 = (case ev of
                   None \<Rightarrow> st6
                 | Some e \<Rightarrow> emit [Print_score (score e) (logs e)] st6)
      in (score_of ev, st7))"

text \<open>Lines 124 to 150: the loop, with its \<open>break\<close>.\<close>

fun run_tasks ::
  "'w agent \<Rightarrow> 'w ERC3 \<Rightarrow> string \<Rightarrow> string \<Rightarrow> bool \<Rightarrow> (int \<times> TaskInfo) list \<Rightarrow> 'w run \<Rightarrow> 'w run"
where
  "run_tasks run_agent core model_id provider stop_on_fail [] st = st"
| "run_tasks run_agent core model_id provider stop_on_fail (nt # rest) st =
     (let (score, st') = run_task run_agent core model_id provider nt st
      in if stop_on_fail \<and> score = 0
         then (emit [Print_stopping (fst nt)] st')\<lparr>stopped_early := True\<rparr>
         else run_tasks run_agent core model_id provider stop_on_fail rest st')"

subsection \<open>\<open>main\<close>\<close>

text \<open>Python's truth value of an optional string: \<open>None\<close> and \<open>""\<close> are false.\<close>

definition truthy :: "string option \<Rightarrow> bool" where
  "truthy a = (case a of None \<Rightarrow> False | Some s \<Rightarrow> s \<noteq> [])"

text \<open>Lines 82 to 87.\<close>

definition model_id_of :: "args \<Rightarrow> string" where
  "model_id_of a =
     (if truthy (arg_model a) then the (arg_model a)
      else if arg_provider a = ''gigachat'' then ''GigaChat-2-Max''
      else ''openai/gpt-4o'')"

text \<open>
  Lines 113 to 118: the numbered tasks to run. After the validation of
  \<open>parse_task_range\<close> every index \<open>i - 1\<close> lies within the list
  (\<open>tasks_to_run_in_range\<close> below).
\<close>

definition tasks_to_run :: "args \<Rightarrow> TaskInfo list \<Rightarrow> error + (int \<times> int) option \<times> (int \<times> TaskInfo) list" where
  "tasks_to_run a tasks =
     (if truthy (arg_task a) then
        (case parse_task_range (the (arg_task a)) (int (length tasks)) of
           Inl e \<Rightarrow> Inl e
         | Inr (start_idx, end_idx) \<Rightarrow>
             Inr (Some (start_idx, end_idx),
                  map (\<lambda>i. (i, tasks ! nat (i - 1))) [start_idx..end_idx]))
      else Inr (None, map (\<lambda>(i, task). (int i + 1, task)) (enumerate 0 tasks)))"

text \<open>Lines 93 and 94: the name and the architecture the session is started with.\<close>

definition session_name :: "string \<Rightarrow> string" where
  "session_name model_id = ''LangChain Agent ('' @ model_id @ '')''"

definition session_architecture :: "string \<Rightarrow> string" where
  "session_architecture provider = ''LangChain create_agent with '' @ provider"

text \<open>
  \<open>main\<close>, lines 75 to 158. An exception that leaves \<open>main\<close> is the first component of
  the result; the second is the run up to that point.
\<close>

definition main :: "'w agent \<Rightarrow> 'w ERC3 \<Rightarrow> args \<Rightarrow> 'w \<Rightarrow> error option \<times> 'w run" where
  "main run_agent core a w0 =
     (let provider = arg_provider a;
          model_id = model_id_of a;
          name = session_name model_id;
          architecture = session_architecture provider;
          (session_id, w1) = start_session core name architecture w0;
          st1 = \<lparr>world = w1,
                 trace = [Call_start_session name architecture session_id,
                          Print_provider provider model_id],
                 completed_count = 0, stopped_early = False\<rparr>;
          (tasks, w2) = session_status core session_id (world st1);
          st2 = emit [Call_session_status session_id tasks, Print_session_tasks (length tasks)]
                  (st1\<lparr>world := w2\<rparr>)
      in if arg_list a then
           (None, emit (Print_available #
                        map (\<lambda>(i, task). Print_task_line (int i) task) (enumerate 1 tasks)) st2)
         else
           (let run_all = (arg_task a = None)
            in case tasks_to_run a tasks of
                 Inl e \<Rightarrow> (Some e, st2)
               | Inr (bounds, to_run) \<Rightarrow>
                   (let st3 = (case bounds of
                                 None \<Rightarrow> st2
                               | Some (start_idx, end_idx) \<Rightarrow>
                                   emit [Print_running start_idx end_idx] st2);
                        st4 = run_tasks run_agent core model_id provider
                                (arg_stop_on_fail a) to_run st3
                    in if run_all \<and> \<not> stopped_early st4 then
                         (None, emit [Call_submit_session session_id, Print_submitted session_id]
                                  (st4\<lparr>world := submit_session core session_id (world st4)\<rparr>))
                       else
                         (None, emit [Print_not_submitted (completed_count st4) (length tasks)
                                        session_id] st4))))"

subsection \<open>Reading a trace\<close>

text \<open>The tasks started, and the tasks completed with their evaluations, in order.\<close>

fun started :: "event list \<Rightarrow> TaskInfo list" where
  "started [] = []"
| "started (Call_start_task t # es) = t # started es"
| "started (_ # es) = started es"

fun completed :: "event list \<Rightarrow> (TaskInfo \<times> TaskEval option) list" where
  "completed [] = []"
| "completed (Call_complete_task t ev # es) = (t, ev) # completed es"
| "completed (_ # es) = completed es"

fun submitted :: "event list \<Rightarrow> bool" where
  "submitted [] = False"
| "submitted (Call_submit_session s # es) = True"
| "submitted (_ # es) = submitted es"

text \<open>The tasks of the session, as \<open>session_status\<close> returned them.\<close>

fun status_tasks :: "event list \<Rightarrow> TaskInfo list" where
  "status_tasks [] = []"
| "status_tasks (Call_session_status s tasks # es) = tasks"
| "status_tasks (_ # es) = status_tasks es"

text \<open>The calls made outside, without the printed lines.\<close>

fun is_call :: "event \<Rightarrow> bool" where
  "is_call (Call_start_session n a s) = True"
| "is_call (Call_session_status s tasks) = True"
| "is_call (Call_start_task t) = True"
| "is_call (Call_run_agent m t p r) = True"
| "is_call (Call_complete_task t ev) = True"
| "is_call (Call_submit_session s) = True"
| "is_call _ = False"

definition outside_calls :: "event list \<Rightarrow> event list" where
  "outside_calls es = filter is_call es"

text \<open>
  A trace is sequential from a task in progress (or none) when a task is started only
  while none is in progress, and the agent runs and a task is completed only for the task
  in progress. The result is the task in progress at the end, or \<open>None\<close> when the trace
  breaks the rule.
\<close>

fun sequential :: "event list \<Rightarrow> TaskInfo option \<Rightarrow> TaskInfo option option" where
  "sequential [] cur = Some cur"
| "sequential (Call_start_task t # es) cur =
     (if cur = None then sequential es (Some t) else None)"
| "sequential (Call_run_agent m t p r # es) cur =
     (if cur = Some t then sequential es cur else None)"
| "sequential (Call_complete_task t ev # es) cur =
     (if cur = Some t then sequential es None else None)"
| "sequential (_ # es) cur = sequential es cur"

subsection \<open>An example harness\<close>

text \<open>
  A session of three tasks in a world that counts the calls made. The agent raises on the
  second task, which is then completed without an evaluation; the other two tasks score 1.
\<close>

definition demo_tasks :: "TaskInfo list" where
  "demo_tasks =
     [\<lparr>task_id = ''t1'', spec_id = ''soda'', task_text = ''Buy 24 sodas''\<rparr>,
      \<lparr>task_id = ''t2'', spec_id = ''coupon'', task_text = ''Buy the cheapest gpu''\<rparr>,
      \<lparr>task_id = ''t3'', spec_id = ''pack'', task_text = ''Buy 6 pens''\<rparr>]"

definition demo_core :: "nat ERC3" where
  "demo_core =
     \<lparr>start_session = (\<lambda>name architecture w. (''ssn-1'', w + 1)),
      session_status = (\<lambda>session_id w. (demo_tasks, w + 1)),
      start_task = (\<lambda>task w. w + 1),
      complete_task = (\<lambda>task w.
        (if task_id task = ''t2'' then None else Some \<lparr>score = 1, logs = ''ok''\<rparr>, w + 1)),
      submit_session = (\<lambda>session_id w. w + 1)\<rparr>"

definition demo_agent :: "nat agent" where
  "demo_agent model_id task provider w =
     (if task_id task = ''t2'' then Raised ''boom'' else Finished, w + 1)"

definition demo_args :: "string option \<Rightarrow> bool \<Rightarrow> bool \<Rightarrow> args" where
  "demo_args t s l =
     \<lparr>arg_task = t, arg_stop_on_fail = s, arg_list = l, arg_model = None,
      arg_provider = ''openrouter''\<rparr>"

subsection \<open>What the loop adds to the trace\<close>

text \<open>
  The events of one iteration of the loop, for a task whose agent run ended with \<open>r\<close> and
  whose completion returned the evaluation \<open>ev\<close>.
\<close>

definition task_events ::
  "string \<Rightarrow> string \<Rightarrow> int \<Rightarrow> TaskInfo \<Rightarrow> agent_result \<Rightarrow> TaskEval option \<Rightarrow> event list"
where
  "task_events model_id provider task_num task r ev =
     [Print_task_header task_num task, Call_start_task task,
      Call_run_agent model_id task provider r]
     @ (case r of Finished \<Rightarrow> [] | Raised e \<Rightarrow> [Print_error e, Print_traceback])
     @ [Call_complete_task task ev]
     @ (case ev of None \<Rightarrow> [] | Some e \<Rightarrow> [Print_score (score e) (logs e)])"

text \<open>The events a run of the loop appends to the trace it starts from.\<close>

definition loop_events ::
  "'w agent \<Rightarrow> 'w ERC3 \<Rightarrow> string \<Rightarrow> string \<Rightarrow> bool \<Rightarrow> (int \<times> TaskInfo) list \<Rightarrow> 'w run \<Rightarrow> event list"
where
  "loop_events run_agent core model_id provider stop_on_fail to_run st =
     drop (length (trace st))
       (trace (run_tasks run_agent core model_id provider stop_on_fail to_run st))"

text \<open>The scores of the completed tasks, as the loop reads them.\<close>

definition scores :: "event list \<Rightarrow> real list" where
  "scores es = map (\<lambda>(t, ev). score_of ev) (completed es)"

text \<open>
  The variables of the loop after one more task, which left the world \<open>w\<close> and added the
  events \<open>es\<close>.
\<close>

definition after_task :: "'w run \<Rightarrow> 'w \<Rightarrow> event list \<Rightarrow> 'w run" where
  "after_task st w es =
     \<lparr>world = w, trace = trace st @ es, completed_count = Suc (completed_count st),
      stopped_early = stopped_early st\<rparr>"

text \<open>The three tasks of the example numbered from 1, and the variables before the loop.\<close>

definition demo_to_run :: "(int \<times> TaskInfo) list" where
  "demo_to_run = zip [1, 2, 3] demo_tasks"

definition demo_start :: "nat run" where
  "demo_start = \<lparr>world = 0, trace = [], completed_count = 0, stopped_early = False\<rparr>"

text \<open>
  A second harness for the same three tasks: the agent always returns, and the second
  task is evaluated with the score 0, the other two with the score 1.
\<close>

definition demo_core_zero :: "nat ERC3" where
  "demo_core_zero =
     \<lparr>start_session = (\<lambda>name architecture w. (''ssn-2'', w + 1)),
      session_status = (\<lambda>session_id w. (demo_tasks, w + 1)),
      start_task = (\<lambda>task w. w + 1),
      complete_task = (\<lambda>task w.
        (if task_id task = ''t2'' then Some \<lparr>score = 0, logs = ''wrong total''\<rparr>
         else Some \<lparr>score = 1, logs = ''ok''\<rparr>, w + 1)),
      submit_session = (\<lambda>session_id w. w + 1)\<rparr>"

definition demo_agent_ok :: "nat agent" where
  "demo_agent_ok model_id task provider w = (Finished, w + 1)"

subsection \<open>Replaying a trace on the outside world\<close>

text \<open>
  The calls of a trace performed on a world, one after the other, each on the world the
  call before it left. The result is the world after the last call, or \<open>None\<close> when a call
  does not return what the trace says it returned. Printed lines leave the world alone.
\<close>

fun replay :: "'w agent \<Rightarrow> 'w ERC3 \<Rightarrow> event list \<Rightarrow> 'w \<Rightarrow> 'w option" where
  "replay run_agent core [] w = Some w"
| "replay run_agent core (Call_start_session n a s # es) w =
     (case start_session core n a w of
        (s', w') \<Rightarrow> if s' = s then replay run_agent core es w' else None)"
| "replay run_agent core (Call_session_status s tasks # es) w =
     (case session_status core s w of
        (tasks', w') \<Rightarrow> if tasks' = tasks then replay run_agent core es w' else None)"
| "replay run_agent core (Call_start_task t # es) w =
     replay run_agent core es (start_task core t w)"
| "replay run_agent core (Call_run_agent m t p r # es) w =
     (case run_agent m t p w of
        (r', w') \<Rightarrow> if r' = r then replay run_agent core es w' else None)"
| "replay run_agent core (Call_complete_task t ev # es) w =
     (case complete_task core t w of
        (ev', w') \<Rightarrow> if ev' = ev then replay run_agent core es w' else None)"
| "replay run_agent core (Call_submit_session s # es) w =
     replay run_agent core es (submit_session core s w)"
| "replay run_agent core (_ # es) w = replay run_agent core es w"

section \<open>The tool adapters: \<open>store_agent.py\<close>\<close>

subsection \<open>\<open>json.dumps\<close> and \<open>error_json\<close>\<close>

text \<open>
  \<open>json.dumps\<close> of a string with the default \<open>ensure_ascii\<close>: the quote and the
  backslash are escaped with a backslash, backspace, form feed, line feed, carriage
  return and tab have their short escapes, and any other character outside the printable
  ASCII range is written as \<open>\u00XX\<close> (the characters of the model are below 256).
\<close>

definition hex_digit :: "nat \<Rightarrow> char" where
  "hex_digit n = ''0123456789abcdef'' ! n"

definition u_escape :: "char \<Rightarrow> string" where
  "u_escape c =
     [CHR 0x5C, CHR ''u'', CHR ''0'', CHR ''0'',
      hex_digit (of_char c div 16), hex_digit (of_char c mod 16)]"

definition short_escape :: "char \<Rightarrow> string option" where
  "short_escape c =
     (if c = CHR 0x22 then Some [CHR 0x5C, CHR 0x22]
      else if c = CHR 0x5C then Some [CHR 0x5C, CHR 0x5C]
      else if c = CHR 0x08 then Some [CHR 0x5C, CHR ''b'']
      else if c = CHR 0x0C then Some [CHR 0x5C, CHR ''f'']
      else if c = CHR 0x0A then Some [CHR 0x5C, CHR ''n'']
      else if c = CHR 0x0D then Some [CHR 0x5C, CHR ''r'']
      else if c = CHR 0x09 then Some [CHR 0x5C, CHR ''t'']
      else None)"

definition escape_ascii :: "char \<Rightarrow> string" where
  "escape_ascii c =
     (case short_escape c of
        Some e \<Rightarrow> e
      | None \<Rightarrow> if 0x20 \<le> (of_char c :: nat) \<and> (of_char c :: nat) \<le> 0x7E then [c]
                else u_escape c)"

definition json_dumps_str :: "string \<Rightarrow> string" where
  "json_dumps_str s = [CHR 0x22] @ concat (map escape_ascii s) @ [CHR 0x22]"

text \<open>Lines 12 to 14: \<open>json.dumps({"error": message})\<close>, with a space after the colon.\<close>

definition error_json :: "string \<Rightarrow> string" where
  "error_json message =
     [CHR ''{'', CHR 0x22] @ ''error'' @ [CHR 0x22, CHR '':'', CHR '' '']
     @ json_dumps_str message @ [CHR ''}'']"

subsection \<open>Responses and their serialisation\<close>

text \<open>
  A response of the basket service is a pydantic model of the \<open>erc3\<close> package: a list of
  fields, each with its name, whether it was explicitly set, and its value. Values are
  \<open>None\<close>, booleans, integers, strings, lists and nested models. (Floating-point fields
  are not modelled.)
\<close>

datatype pyval =
    PNone
  | PBool bool
  | PInt int
  | PStr string
  | PList "pyval list"
  | PModel "(string \<times> bool \<times> pyval) list"

datatype json =
    JNull
  | JBool bool
  | JInt int
  | JStr string
  | JArr "json list"
  | JObj "(string \<times> json) list"

text \<open>
  The two flags the adapters pass to \<open>model_dump_json\<close>, by their documented meaning:
  \<open>exclude_unset\<close> leaves out the fields that were not explicitly set, \<open>exclude_none\<close>
  the fields whose value is \<open>None\<close>; both apply to nested models as well. A field
  explicitly set to an empty list or an empty string is neither.
\<close>

definition kept :: "bool \<Rightarrow> bool \<Rightarrow> bool \<times> pyval \<Rightarrow> bool" where
  "kept exclude_none exclude_unset f =
     (\<not> (exclude_unset \<and> \<not> fst f) \<and> \<not> (exclude_none \<and> snd f = PNone))"

fun model_dump :: "bool \<Rightarrow> bool \<Rightarrow> pyval \<Rightarrow> json" where
  "model_dump en eu PNone = JNull"
| "model_dump en eu (PBool b) = JBool b"
| "model_dump en eu (PInt n) = JInt n"
| "model_dump en eu (PStr s) = JStr s"
| "model_dump en eu (PList vs) = JArr (map (model_dump en eu) vs)"
| "model_dump en eu (PModel fs) =
     JObj (map (\<lambda>(k, s, v). (k, model_dump en eu v))
            (filter (\<lambda>(k, f). kept en eu f) fs))"

text \<open>Decimal digits of an integer.\<close>

function show_nat :: "nat \<Rightarrow> string" where
  "show_nat n =
     (if n < 10 then [hex_digit n]
      else show_nat (n div 10) @ [hex_digit (n mod 10)])"
  by pat_completeness auto
termination
  by (relation "measure id") auto

declare show_nat.simps [simp del]

definition show_int :: "int \<Rightarrow> string" where
  "show_int i = (if i < 0 then CHR ''-'' # show_nat (nat (- i)) else show_nat (nat i))"

text \<open>
  The compact JSON text pydantic writes: no white space between tokens, the control
  characters, the quote and the backslash escaped inside strings, every other character
  written as it is.
\<close>

definition escape_compact :: "char \<Rightarrow> string" where
  "escape_compact c =
     (case short_escape c of
        Some e \<Rightarrow> e
      | None \<Rightarrow> if (of_char c :: nat) < 0x20 then u_escape c else [c])"

definition quote :: "string \<Rightarrow> string" where
  "quote s = [CHR 0x22] @ concat (map escape_compact s) @ [CHR 0x22]"

fun join :: "string \<Rightarrow> string list \<Rightarrow> string" where
  "join sep [] = []"
| "join sep [x] = x"
| "join sep (x # y # ys) = x @ sep @ join sep (y # ys)"

fun to_json :: "json \<Rightarrow> string" where
  "to_json JNull = ''null''"
| "to_json (JBool b) = (if b then ''true'' else ''false'')"
| "to_json (JInt n) = show_int n"
| "to_json (JStr s) = quote s"
| "to_json (JArr vs) = ''['' @ join '','' (map to_json vs) @ '']''"
| "to_json (JObj kvs) =
     ''{'' @ join '','' (map (\<lambda>(k, v). quote k @ '':'' @ to_json v) kvs) @ ''}''"

definition model_dump_json :: "bool \<Rightarrow> bool \<Rightarrow> (string \<times> bool \<times> pyval) list \<Rightarrow> string" where
  "model_dump_json exclude_none exclude_unset result =
     to_json (model_dump exclude_none exclude_unset (PModel result))"

text \<open>The keys of a JSON object, in the order they are written.\<close>

fun json_keys :: "json \<Rightarrow> string list" where
  "json_keys (JObj kvs) = map fst kvs"
| "json_keys _ = []"

text \<open>
  Empty values in the sense of Python's truth value: \<open>None\<close>, the empty string, the
  empty list.
\<close>

fun is_empty :: "pyval \<Rightarrow> bool" where
  "is_empty PNone = True"
| "is_empty (PStr s) = (s = [])"
| "is_empty (PList vs) = (vs = [])"
| "is_empty _ = False"

text \<open>
  What it means for a JSON value to be a Python value written with the unset fields and
  the \<open>None\<close> fields of every model in it left out, and nothing else: a model is an
  object whose members are, in order, its fields that are set and not \<open>None\<close>, each
  under its name and written the same way; a list is an array of its elements written the
  same way; any other value is itself.
\<close>

fun omits :: "pyval \<Rightarrow> json \<Rightarrow> bool"
  and omits_list :: "pyval list \<Rightarrow> json list \<Rightarrow> bool"
  and omits_fields :: "(string \<times> bool \<times> pyval) list \<Rightarrow> (string \<times> json) list \<Rightarrow> bool"
where
  "omits PNone j = (j = JNull)"
| "omits (PBool b) j = (j = JBool b)"
| "omits (PInt n) j = (j = JInt n)"
| "omits (PStr s) j = (j = JStr s)"
| "omits (PList vs) j = (case j of JArr js \<Rightarrow> omits_list vs js | _ \<Rightarrow> False)"
| "omits (PModel fs) j = (case j of JObj kvs \<Rightarrow> omits_fields fs kvs | _ \<Rightarrow> False)"
| "omits_list [] js = (js = [])"
| "omits_list (v # vs) js =
     (case js of [] \<Rightarrow> False | j # js' \<Rightarrow> omits v j \<and> omits_list vs js')"
| "omits_fields [] kvs = (kvs = [])"
| "omits_fields ((k, s, v) # fs) kvs =
     (if s \<and> v \<noteq> PNone then
        (case kvs of
           [] \<Rightarrow> False
         | (k', j) # kvs' \<Rightarrow> k' = k \<and> omits v j \<and> omits_fields fs kvs')
      else omits_fields fs kvs)"

text \<open>The keys of all the objects of a JSON value, at any depth.\<close>

fun all_keys :: "json \<Rightarrow> string list" where
  "all_keys (JArr js) = concat (map all_keys js)"
| "all_keys (JObj kvs) = concat (map (\<lambda>(k, j). k # all_keys j) kvs)"
| "all_keys _ = []"

text \<open>
  The names of the fields of a Python value, at any depth, that are set to a value other
  than \<open>None\<close> and are not below a field that is unset or \<open>None\<close>.
\<close>

fun written :: "pyval \<Rightarrow> string list" where
  "written (PList vs) = concat (map written vs)"
| "written (PModel fs) =
     concat (map (\<lambda>(k, s, v). if s \<and> v \<noteq> PNone then k # written v else []) fs)"
| "written _ = []"

subsection \<open>The seven adapters\<close>

text \<open>The requests of the \<open>erc3\<close> store client, with the arguments the adapters pass.\<close>

datatype request =
    Req_ListProducts int int
  | Req_ViewBasket
  | Req_AddProductToBasket string int
  | Req_RemoveItemFromBasket string int
  | Req_ApplyCoupon string
  | Req_RemoveCoupon
  | Req_CheckoutBasket

text \<open>
  What the body of an adapter's \<open>try\<close> block ends with: the response of the service, an
  \<open>ApiException\<close> with its \<open>detail\<close>, or any other \<open>Exception\<close> with its text
  \<open>str(e)\<close>. The basket service is a state transformer on the outside world. The lines
  an adapter prints are not part of what it returns and are left out.
\<close>

datatype outcome =
    Response "(string \<times> bool \<times> pyval) list"
  | ApiException string
  | OtherException string

type_synonym 'w store_api = "request \<Rightarrow> 'w \<Rightarrow> outcome \<times> 'w"

definition list_products :: "'w store_api \<Rightarrow> int \<Rightarrow> int \<Rightarrow> 'w \<Rightarrow> string \<times> 'w" where
  "list_products dispatch offset limit w =
     (case dispatch (Req_ListProducts offset limit) w of
        (Response result, w') \<Rightarrow> (model_dump_json True True result, w')
      | (ApiException detail, w') \<Rightarrow> (error_json detail, w')
      | (OtherException e, w') \<Rightarrow> (error_json e, w'))"

definition view_basket :: "'w store_api \<Rightarrow> 'w \<Rightarrow> string \<times> 'w" where
  "view_basket dispatch w =
     (case dispatch Req_ViewBasket w of
        (Response result, w') \<Rightarrow> (model_dump_json True True result, w')
      | (ApiException detail, w') \<Rightarrow> (error_json detail, w')
      | (OtherException e, w') \<Rightarrow> (error_json e, w'))"

definition add_product_to_basket :: "'w store_api \<Rightarrow> string \<Rightarrow> int \<Rightarrow> 'w \<Rightarrow> string \<times> 'w" where
  "add_product_to_basket dispatch sku quantity w =
     (case dispatch (Req_AddProductToBasket sku quantity) w of
        (Response result, w') \<Rightarrow> (model_dump_json True True result, w')
      | (ApiException detail, w') \<Rightarrow> (error_json detail, w')
      | (OtherException e, w') \<Rightarrow> (error_json e, w'))"

definition remove_item_from_basket :: "'w store_api \<Rightarrow> string \<Rightarrow> int \<Rightarrow> 'w \<Rightarrow> string \<times> 'w" where
  "remove_item_from_basket dispatch sku quantity w =
     (case dispatch (Req_RemoveItemFromBasket sku quantity) w of
        (Response result, w') \<Rightarrow> (model_dump_json True True result, w')
      | (ApiException detail, w') \<Rightarrow> (error_json detail, w')
      | (OtherException e, w') \<Rightarrow> (error_json e, w'))"

definition apply_coupon :: "'w store_api \<Rightarrow> string \<Rightarrow> 'w \<Rightarrow> string \<times> 'w" where
  "apply_coupon dispatch coupon w =
     (case dispatch (Req_ApplyCoupon coupon) w of
        (Response result, w') \<Rightarrow> (model_dump_json True True result, w')
      | (ApiException detail, w') \<Rightarrow> (error_json detail, w')
      | (OtherException e, w') \<Rightarrow> (error_json e, w'))"

definition remove_coupon :: "'w store_api \<Rightarrow> 'w \<Rightarrow> string \<times> 'w" where
  "remove_coupon dispatch w =
     (case dispatch Req_RemoveCoupon w of
        (Response result, w') \<Rightarrow> (model_dump_json True True result, w')
      | (ApiException detail, w') \<Rightarrow> (error_json detail, w')
      | (OtherException e, w') \<Rightarrow> (error_json e, w'))"

definition checkout_basket :: "'w store_api \<Rightarrow> 'w \<Rightarrow> string \<times> 'w" where
  "checkout_basket dispatch w =
     (case dispatch Req_CheckoutBasket w of
        (Response result, w') \<Rightarrow> (model_dump_json True True result, w')
      | (ApiException detail, w') \<Rightarrow> (error_json detail, w')
      | (OtherException e, w') \<Rightarrow> (error_json e, w'))"

subsection \<open>An example basket service\<close>

text \<open>
  A service in a world that counts the calls made: checking out fails with an
  \<open>ApiException\<close>, removing a coupon with another exception of the same text, and
  viewing the basket returns an empty basket whose coupon is \<open>None\<close> and whose discount
  was not set. Listing the products returns two products, the second with a description
  that is \<open>None\<close> and a pack size that was not set.
\<close>

definition demo_products :: "(string \<times> bool \<times> pyval) list" where
  "demo_products =
     [(''Products'', True,
       PList [PModel [(''Sku'', True, PStr ''soda-6pk''), (''Price'', True, PInt 12),
                      (''Pack'', True, PInt 6)],
              PModel [(''Sku'', True, PStr ''soda-1''), (''Description'', True, PNone),
                      (''Price'', True, PInt 3), (''Pack'', False, PInt 1)]]),
      (''NextOffset'', True, PInt (- 1))]"

definition demo_basket :: "(string \<times> bool \<times> pyval) list" where
  "demo_basket =
     [(''Items'', True, PList []), (''Coupon'', True, PNone),
      (''Discount'', False, PInt 0), (''Total'', True, PInt 0)]"

definition demo_store :: "nat store_api" where
  "demo_store req w =
     (case req of
        Req_CheckoutBasket \<Rightarrow> (ApiException ''basket is empty'', w + 1)
      | Req_RemoveCoupon \<Rightarrow> (OtherException ''basket is empty'', w + 1)
      | Req_ViewBasket \<Rightarrow> (Response demo_basket, w + 1)
      | Req_ListProducts offset limit \<Rightarrow> (Response demo_products, w + 1)
      | _ \<Rightarrow> (Response [], w + 1))"

section \<open>Properties of \<open>parse_task_range\<close>\<close>

subsection \<open>Splitting\<close>

lemma split_not_Nil: "split sep s \<noteq> []"
  by (induction s) (simp_all add: Let_def)

lemma split_length: "length (split sep s) = Suc (count_list s sep)"
  by (induction s) (simp_all add: Let_def split_not_Nil)

lemma split_no_sep: "p \<in> set (split sep s) \<Longrightarrow> sep \<notin> set p"
proof (induction s arbitrary: p)
  case Nil
  then show ?case by simp
next
  case (Cons c cs)
  obtain q qs where q: "split sep cs = q # qs"
    using split_not_Nil [of sep cs] by (cases "split sep cs") auto
  with Cons show ?case
    by (auto simp: Let_def split: if_splits)
qed

lemma split_append_sep: "sep \<notin> set p \<Longrightarrow> split sep (p @ sep # s) = p # split sep s"
  by (induction p) (auto simp: Let_def)

lemma split_no_sep_id: "sep \<notin> set p \<Longrightarrow> split sep p = [p]"
  by (induction p) (auto simp: Let_def)

lemma count_list_pos: "x \<in> set xs \<Longrightarrow> 0 < count_list xs x"
  by (induction xs) auto

lemma split_two:
  assumes "sep \<in> set s"
  obtains p0 p1 rest where "split sep s = p0 # p1 # rest"
proof -
  from assms have "0 < count_list s sep"
    by (rule count_list_pos)
  then have "2 \<le> length (split sep s)"
    by (simp add: split_length)
  then show thesis
    using that by (cases "split sep s" rule: remdups_adj.cases) auto
qed

lemma split_three:
  assumes "2 \<le> count_list s sep"
  obtains p0 p1 p2 rest where "split sep s = p0 # p1 # p2 # rest"
proof -
  from assms have len: "3 \<le> length (split sep s)"
    by (simp add: split_length)
  then obtain p0 r0 where r0: "split sep s = p0 # r0"
    by (cases "split sep s") auto
  with len obtain p1 r1 where r1: "r0 = p1 # r1"
    by (cases r0) auto
  with len r0 obtain p2 r2 where "r1 = p2 # r2"
    by (cases r1) auto
  with r0 r1 that show thesis by simp
qed

text \<open>Only the first two segments matter to \<open>parse_bounds\<close>.\<close>

lemma parse_bounds_first_two:
  assumes "split CHR ''-'' s = p0 # p1 # rest"
  shows "parse_bounds s = parse_bounds (p0 @ ''-'' @ p1)"
proof -
  have "2 \<le> length (split CHR ''-'' s)"
    using assms by simp
  then have dash: "CHR ''-'' \<in> set s"
    by (cases "CHR ''-'' \<in> set s") (simp_all add: split_no_sep_id)
  have "p0 \<in> set (split CHR ''-'' s)" and "p1 \<in> set (split CHR ''-'' s)"
    using assms by simp_all
  then have no: "CHR ''-'' \<notin> set p0" "CHR ''-'' \<notin> set p1"
    by (simp_all add: split_no_sep)
  then have "split CHR ''-'' (p0 @ ''-'' @ p1) = [p0, p1]"
    by (simp add: split_append_sep split_no_sep_id)
  with assms dash show ?thesis
    by (simp add: parse_bounds_def)
qed

subsection \<open>\<open>int()\<close> accepts exactly the decimal integers within the digit limit\<close>

lemma not_digit_underscore: "\<not> is_digit CHR ''_''"
  by (simp add: is_digit_def)

lemma digits_iff:
  "is_digit c \<Longrightarrow> (\<exists>n' v. digits cs n acc = Some (n', v, [])) =
     (\<forall>g \<in> set (split CHR ''_'' (c # cs)). g \<noteq> [] \<and> (\<forall>c \<in> set g. is_digit c))"
proof (induction cs n acc arbitrary: c rule: digits.induct)
  case (1 n acc)
  then show ?case by (auto simp: Let_def not_digit_underscore)
next
  case (2 d ds n acc)
  obtain q qs where q: "split CHR ''_'' ds = q # qs"
    using split_not_Nil [of "CHR ''_''" ds] by (cases "split CHR ''_'' ds") auto
  show ?case
  proof (cases "is_digit d")
    case True
    with 2 q show ?thesis
      by (auto simp: Let_def not_digit_underscore)
  next
    case nd: False
    show ?thesis
    proof (cases "d = CHR ''_''")
      case True
      show ?thesis
      proof (cases ds)
        case Nil
        with True 2 show ?thesis by (simp add: Let_def not_digit_underscore)
      next
        case (Cons e es)
        obtain r rs where r: "split CHR ''_'' es = r # rs"
          using split_not_Nil [of "CHR ''_''" es] by (cases "split CHR ''_'' es") auto
        show ?thesis
        proof (cases "is_digit e")
          case True
          with 2(2) [OF nd \<open>d = CHR ''_''\<close> Cons True True] 2(3) Cons r \<open>d = CHR ''_''\<close>
          show ?thesis
            by (auto simp: Let_def not_digit_underscore)
        next
          case False
          with 2(3) Cons r \<open>d = CHR ''_''\<close>
          show ?thesis
            by (auto simp: Let_def not_digit_underscore)
        qed
      qed
    next
      case False
      with nd 2(3) q show ?thesis
        by (auto simp: Let_def not_digit_underscore)
    qed
  qed
qed

text \<open>The scan counts the digits it passes.\<close>

lemma digits_count_le:
  "digits cs n acc = Some (n', v, rest) \<Longrightarrow> n' \<le> n + digit_count cs"
proof (induction cs n acc rule: digits.induct)
  case (1 n acc)
  then show ?case by (simp add: digit_count_def)
next
  case (2 d ds n acc)
  then show ?case
    by (auto simp: digit_count_def split: if_splits list.splits)
qed

lemma digits_count:
  "digits cs n acc = Some (n', v, []) \<Longrightarrow> n' = n + digit_count cs"
proof (induction cs n acc rule: digits.induct)
  case (1 n acc)
  then show ?case by (simp add: digit_count_def)
next
  case (2 d ds n acc)
  then show ?case
    by (auto simp: digit_count_def not_digit_underscore split: if_splits list.splits)
qed

lemma space_not_digit: "is_space c \<Longrightarrow> \<not> is_digit c"
  by (auto simp: is_space_def is_digit_def)

lemma filter_digit_dropWhile: "filter is_digit (dropWhile is_space s) = filter is_digit s"
  by (induction s) (auto simp: space_not_digit)

lemma digit_count_strip: "digit_count (strip s) = digit_count s"
proof -
  have "filter is_digit (strip s) = filter is_digit s"
    unfolding strip_def
    by (simp add: rev_filter [symmetric] filter_digit_dropWhile)
  then show ?thesis
    by (simp add: digit_count_def)
qed

lemma sign_not_digit: "\<not> is_digit CHR ''+''" "\<not> is_digit CHR ''-''"
  by (simp_all add: is_digit_def)

text \<open>The sign and the body of a stripped literal, as \<open>py_int\<close> takes them apart.\<close>

lemma py_int_body:
  fixes s :: string
  obtains neg body where
    "py_int s =
       (case body of
          [] \<Rightarrow> Inl (InvalidLiteral s)
        | c # cs \<Rightarrow>
            if is_digit c then
              (case digits cs 1 (digit_value c) of
                 None \<Rightarrow> Inl (InvalidLiteral s)
               | Some (n, v, rest) \<Rightarrow>
                   if n > int_max_str_digits then Inl (TooManyDigits n)
                   else if rest \<noteq> [] then Inl (InvalidLiteral s)
                   else Inr (if neg then - v else v))
            else Inl (InvalidLiteral s))"
    and "decimal_integer s =
       (body \<noteq> [] \<and>
        (\<forall>g \<in> set (split CHR ''_'' body). g \<noteq> [] \<and> (\<forall>c \<in> set g. is_digit c)))"
    and "digit_count body = digit_count s"
proof (cases "strip s")
  case Nil
  with digit_count_strip [of s] show ?thesis
    by (intro that [of False "[]"]) (simp_all add: py_int_def decimal_integer_def)
next
  case (Cons c r)
  have dc: "digit_count (c # r) = digit_count s"
    using digit_count_strip [of s] Cons by simp
  consider "c = CHR ''+''" | "c = CHR ''-''" | "c \<noteq> CHR ''+''" "c \<noteq> CHR ''-''"
    by blast
  then show ?thesis
  proof cases
    case 1
    with Cons dc show ?thesis
      by (intro that [of False r]) (simp_all add: py_int_def decimal_integer_def digit_count_def sign_not_digit)
  next
    case 2
    with Cons dc show ?thesis
      by (intro that [of True r]) (simp_all add: py_int_def decimal_integer_def digit_count_def sign_not_digit)
  next
    case 3
    with Cons dc show ?thesis
      by (intro that [of False "c # r"]) (simp_all add: py_int_def decimal_integer_def)
  qed
qed

lemma py_int_accepts:
  "(\<exists>n. py_int s = Inr n) = (decimal_integer s \<and> digit_count s \<le> int_max_str_digits)"
proof -
  obtain neg body where p: "py_int s =
       (case body of
          [] \<Rightarrow> Inl (InvalidLiteral s)
        | c # cs \<Rightarrow>
            if is_digit c then
              (case digits cs 1 (digit_value c) of
                 None \<Rightarrow> Inl (InvalidLiteral s)
               | Some (n, v, rest) \<Rightarrow>
                   if n > int_max_str_digits then Inl (TooManyDigits n)
                   else if rest \<noteq> [] then Inl (InvalidLiteral s)
                   else Inr (if neg then - v else v))
            else Inl (InvalidLiteral s))"
    and d: "decimal_integer s =
       (body \<noteq> [] \<and>
        (\<forall>g \<in> set (split CHR ''_'' body). g \<noteq> [] \<and> (\<forall>c \<in> set g. is_digit c)))"
    and k: "digit_count body = digit_count s"
    by (rule py_int_body)
  show ?thesis
  proof (cases body)
    case Nil
    with p d show ?thesis by simp
  next
    case (Cons c cs)
    obtain q qs where q: "split CHR ''_'' cs = q # qs"
      using split_not_Nil [of "CHR ''_''" cs] by (cases "split CHR ''_'' cs") auto
    show ?thesis
    proof (cases "is_digit c")
      case False
      with Cons p d q show ?thesis by (auto simp: Let_def)
    next
      case True
      note g = digits_iff [OF True, of cs 1 "digit_value c"]
      from True Cons k have k': "digit_count s = Suc (digit_count cs)"
        by (simp add: digit_count_def)
      show ?thesis
      proof (cases "digits cs 1 (digit_value c)")
        case None
        with Cons True p d g show ?thesis by simp
      next
        case (Some r)
        obtain n v rest where r: "r = (n, v, rest)"
          by (cases r)
        show ?thesis
        proof (cases "rest = []")
          case False
          with Some r Cons True p d g show ?thesis by auto
        next
          case e: True
          with Some r have "n = 1 + digit_count cs"
            using digits_count [of cs 1 "digit_value c" n v] by simp
          with Some r e Cons True p d g k' show ?thesis by auto
        qed
      qed
    qed
  qed
qed

lemma py_int_error: "py_int s = Inl e \<Longrightarrow> e = InvalidLiteral s \<or> (\<exists>n. e = TooManyDigits n)"
  unfolding py_int_def Let_def
  by (auto split: list.splits prod.splits option.splits if_splits)

lemma py_int_int_error: "py_int s = Inl e \<Longrightarrow> int_error e"
  by (auto dest: py_int_error)

lemma py_int_rejects: "\<not> decimal_integer s \<Longrightarrow> \<exists>e. py_int s = Inl e \<and> int_error e"
  using py_int_accepts [of s] py_int_int_error [of s] by (cases "py_int s") auto

text \<open>Within the digit limit the error is the one of an invalid literal.\<close>

lemma py_int_no_limit_error:
  assumes "digit_count s \<le> int_max_str_digits"
  shows "py_int s \<noteq> Inl (TooManyDigits n)"
proof -
  obtain neg body where p: "py_int s =
       (case body of
          [] \<Rightarrow> Inl (InvalidLiteral s)
        | c # cs \<Rightarrow>
            if is_digit c then
              (case digits cs 1 (digit_value c) of
                 None \<Rightarrow> Inl (InvalidLiteral s)
               | Some (n, v, rest) \<Rightarrow>
                   if n > int_max_str_digits then Inl (TooManyDigits n)
                   else if rest \<noteq> [] then Inl (InvalidLiteral s)
                   else Inr (if neg then - v else v))
            else Inl (InvalidLiteral s))"
    and k: "digit_count body = digit_count s"
    by (rule py_int_body)
  show ?thesis
  proof (cases body)
    case Nil
    with p show ?thesis by simp
  next
    case (Cons c cs)
    show ?thesis
    proof (cases "is_digit c")
      case False
      with Cons p show ?thesis by simp
    next
      case True
      from True Cons k have k': "digit_count s = Suc (digit_count cs)"
        by (simp add: digit_count_def)
      show ?thesis
      proof (cases "digits cs 1 (digit_value c)")
        case None
        with Cons True p show ?thesis by simp
      next
        case (Some r)
        obtain m v rest where r: "r = (m, v, rest)"
          by (cases r)
        with Some have "m \<le> 1 + digit_count cs"
          using digits_count_le [of cs 1 "digit_value c" m v rest] by simp
        with k' assms have "\<not> m > int_max_str_digits"
          by simp
        with Some r Cons True p show ?thesis
          by simp
      qed
    qed
  qed
qed

lemma py_int_invalid:
  "\<not> decimal_integer s \<Longrightarrow> digit_count s \<le> int_max_str_digits \<Longrightarrow>
   py_int s = Inl (InvalidLiteral s)"
  using py_int_rejects [of s] py_int_error [of s] py_int_no_limit_error [of s] by auto

text \<open>With a dash in the argument, \<open>parts[1]\<close> exists: no \<open>IndexError\<close>.\<close>

lemma parse_bounds_no_IndexError: "parse_bounds s \<noteq> Inl IndexError"
proof (cases "CHR ''-'' \<in> set s")
  case True
  then obtain p0 p1 rest where "split CHR ''-'' s = p0 # p1 # rest"
    by (rule split_two)
  with True show ?thesis
    by (auto simp: parse_bounds_def split: sum.splits dest: py_int_error)
next
  case False
  then show ?thesis
    by (auto simp: parse_bounds_def split: sum.splits dest: py_int_error)
qed

lemmas parse_defs =
  parse_task_range_def parse_bounds_def py_int_def strip_def is_space_def is_digit_def
  digit_value_def int_max_str_digits_def

section \<open>Task range parsing\<close>

text \<open>
  C2: \<open>parse_task_range\<close> maps \<open>"3"\<close> to \<open>(3, 3)\<close> and \<open>"1-5"\<close> to
  \<open>(1, 5)\<close> (the range lying within the number of tasks), and every input whose start is
  below 1, whose end exceeds the number of tasks, or whose start exceeds its end raises the
  range error instead of returning a pair: a returned pair always satisfies
  \<open>1 \<le> start \<le> end \<le> max_tasks\<close>.
\<close>

theorem parse_task_range_validates:
  "parse_task_range ''3'' max_tasks =
     (if 3 \<le> max_tasks then Inr (3, 3) else Inl (InvalidTaskRange ''3'' max_tasks))
   \<and> parse_task_range ''1-5'' max_tasks =
     (if 5 \<le> max_tasks then Inr (1, 5) else Inl (InvalidTaskRange ''1-5'' max_tasks))
   \<and> (parse_bounds task_arg = Inr (start, end_idx) \<and>
        (start < 1 \<or> end_idx > max_tasks \<or> start > end_idx) \<longrightarrow>
        parse_task_range task_arg max_tasks = Inl (InvalidTaskRange task_arg max_tasks))
   \<and> (parse_task_range task_arg max_tasks = Inr (start, end_idx) \<longrightarrow>
        1 \<le> start \<and> start \<le> end_idx \<and> end_idx \<le> max_tasks)"
proof -
  have 1: "parse_task_range ''3'' max_tasks =
     (if 3 \<le> max_tasks then Inr (3, 3) else Inl (InvalidTaskRange ''3'' max_tasks))"
    by (simp add: parse_defs)
  have 2: "parse_task_range ''1-5'' max_tasks =
     (if 5 \<le> max_tasks then Inr (1, 5) else Inl (InvalidTaskRange ''1-5'' max_tasks))"
    by (simp add: parse_defs)
  have 3: "parse_bounds task_arg = Inr (start, end_idx) \<and>
        (start < 1 \<or> end_idx > max_tasks \<or> start > end_idx) \<longrightarrow>
        parse_task_range task_arg max_tasks = Inl (InvalidTaskRange task_arg max_tasks)"
    by (auto simp: parse_task_range_def)
  have 4: "parse_task_range task_arg max_tasks = Inr (start, end_idx) \<longrightarrow>
        1 \<le> start \<and> start \<le> end_idx \<and> end_idx \<le> max_tasks"
    by (auto simp: parse_task_range_def split: sum.splits if_splits)
  show ?thesis
    by (intro conjI) (fact 1, fact 2, fact 3, fact 4)
qed

theorem parse_task_range_validates_witness:
  "parse_bounds ''4-2'' = Inr (4, 2) \<and> (4 :: int) > 2
   \<and> parse_task_range ''4-2'' 5 = Inl (InvalidTaskRange ''4-2'' 5)
   \<and> parse_task_range ''2-4'' 5 = Inr (2, 4) \<and> (1 :: int) \<le> 2 \<and> (2 :: int) \<le> 4 \<and> (4 :: int) \<le> 5
   \<and> parse_task_range ''3'' 5 = Inr (3, 3)"
proof -
  have b: "parse_bounds ''4-2'' = Inr (4, 2)"
    by (simp add: parse_defs)
  have r: "parse_task_range ''2-4'' 5 = Inr (2, 4)"
    by (simp add: parse_defs)
  from b parse_task_range_validates [of 5 "''4-2''" 4 2]
  have "parse_task_range ''4-2'' 5 = Inl (InvalidTaskRange ''4-2'' 5)"
    by simp
  moreover from r parse_task_range_validates [of 5 "''2-4''" 2 4]
  have "(1 :: int) \<le> 2 \<and> (2 :: int) \<le> 4 \<and> (4 :: int) \<le> 5 \<and> parse_task_range ''3'' 5 = Inr (3, 3)"
    by simp
  ultimately show ?thesis
    using b r by simp
qed

text \<open>
  C8: with two or more dashes in the argument only the first two segments are used, so
  \<open>"1-2-3"\<close> parses as \<open>(1, 2)\<close> when in bounds; and when the first or the second
  segment (or, without a dash, the whole argument) is not a decimal integer, \<open>int()\<close>
  raises its \<open>ValueError\<close>, whatever the number of tasks: the range validation is not
  reached. The error is the one for the first segment that \<open>int()\<close> refuses, and within
  the digit limit it is the error of an invalid literal. A leading dash as in \<open>"-3"\<close>
  gives an empty first segment; white space around a segment, the no-break space
  included, is skipped.
\<close>

theorem parse_task_range_segments:
  "(2 \<le> count_list task_arg CHR ''-'' \<longrightarrow>
      parse_bounds task_arg = parse_bounds (segment 0 task_arg @ ''-'' @ segment 1 task_arg))
   \<and> parse_task_range ''1-2-3'' max_tasks =
       (if 2 \<le> max_tasks then Inr (1, 2) else Inl (InvalidTaskRange ''1-2-3'' max_tasks))
   \<and> (CHR ''-'' \<in> set task_arg \<and>
        (\<not> decimal_integer (segment 0 task_arg) \<or> \<not> decimal_integer (segment 1 task_arg)) \<longrightarrow>
        (\<exists>e. parse_task_range task_arg max_tasks = Inl e \<and> int_error e))
   \<and> (CHR ''-'' \<notin> set task_arg \<and> \<not> decimal_integer task_arg \<longrightarrow>
        (\<exists>e. parse_task_range task_arg max_tasks = Inl e \<and> int_error e))
   \<and> (CHR ''-'' \<in> set task_arg \<and> \<not> decimal_integer (segment 0 task_arg) \<and>
        digit_count (segment 0 task_arg) \<le> int_max_str_digits \<longrightarrow>
        parse_task_range task_arg max_tasks = Inl (InvalidLiteral (segment 0 task_arg)))
   \<and> (CHR ''-'' \<in> set task_arg \<and> decimal_integer (segment 0 task_arg) \<and>
        digit_count (segment 0 task_arg) \<le> int_max_str_digits \<and>
        \<not> decimal_integer (segment 1 task_arg) \<and>
        digit_count (segment 1 task_arg) \<le> int_max_str_digits \<longrightarrow>
        parse_task_range task_arg max_tasks = Inl (InvalidLiteral (segment 1 task_arg)))
   \<and> (CHR ''-'' \<notin> set task_arg \<and> \<not> decimal_integer task_arg \<and>
        digit_count task_arg \<le> int_max_str_digits \<longrightarrow>
        parse_task_range task_arg max_tasks = Inl (InvalidLiteral task_arg))
   \<and> segment 0 ''-3'' = [] \<and> parse_task_range ''-3'' max_tasks = Inl (InvalidLiteral [])
   \<and> parse_task_range [CHR 0xA0, CHR ''5''] max_tasks =
       (if 5 \<le> max_tasks then Inr (5, 5)
        else Inl (InvalidTaskRange [CHR 0xA0, CHR ''5''] max_tasks))"
proof -
  have 1: "2 \<le> count_list task_arg CHR ''-'' \<longrightarrow>
      parse_bounds task_arg = parse_bounds (segment 0 task_arg @ ''-'' @ segment 1 task_arg)"
  proof
    assume "2 \<le> count_list task_arg CHR ''-''"
    then obtain p0 p1 p2 rest where "split CHR ''-'' task_arg = p0 # p1 # p2 # rest"
      by (rule split_three)
    then show "parse_bounds task_arg =
        parse_bounds (segment 0 task_arg @ ''-'' @ segment 1 task_arg)"
      using parse_bounds_first_two [of task_arg p0 p1 "p2 # rest"] by (simp add: segment_def)
  qed
  have 2: "parse_task_range ''1-2-3'' max_tasks =
       (if 2 \<le> max_tasks then Inr (1, 2) else Inl (InvalidTaskRange ''1-2-3'' max_tasks))"
    by (simp add: parse_defs)
  have 3: "CHR ''-'' \<in> set task_arg \<and>
        (\<not> decimal_integer (segment 0 task_arg) \<or> \<not> decimal_integer (segment 1 task_arg)) \<longrightarrow>
        (\<exists>e. parse_task_range task_arg max_tasks = Inl e \<and> int_error e)"
  proof
    assume h: "CHR ''-'' \<in> set task_arg \<and>
        (\<not> decimal_integer (segment 0 task_arg) \<or> \<not> decimal_integer (segment 1 task_arg))"
    then obtain p0 p1 rest where s: "split CHR ''-'' task_arg = p0 # p1 # rest"
      by (blast elim: split_two)
    show "\<exists>e. parse_task_range task_arg max_tasks = Inl e \<and> int_error e"
    proof (cases "py_int p0")
      case (Inl e)
      with h s py_int_int_error [OF Inl] show ?thesis
        by (simp add: parse_task_range_def parse_bounds_def)
    next
      case (Inr a)
      with py_int_accepts [of p0] have "decimal_integer p0"
        by auto
      with h s have "\<not> decimal_integer p1"
        by (simp add: segment_def)
      then obtain e where "py_int p1 = Inl e" "int_error e"
        using py_int_rejects by blast
      with h s Inr show ?thesis
        by (simp add: parse_task_range_def parse_bounds_def)
    qed
  qed
  have 4: "CHR ''-'' \<notin> set task_arg \<and> \<not> decimal_integer task_arg \<longrightarrow>
        (\<exists>e. parse_task_range task_arg max_tasks = Inl e \<and> int_error e)"
  proof
    assume h: "CHR ''-'' \<notin> set task_arg \<and> \<not> decimal_integer task_arg"
    then obtain e where "py_int task_arg = Inl e" "int_error e"
      using py_int_rejects by blast
    with h show "\<exists>e. parse_task_range task_arg max_tasks = Inl e \<and> int_error e"
      by (simp add: parse_task_range_def parse_bounds_def)
  qed
  have 5: "CHR ''-'' \<in> set task_arg \<and> \<not> decimal_integer (segment 0 task_arg) \<and>
        digit_count (segment 0 task_arg) \<le> int_max_str_digits \<longrightarrow>
        parse_task_range task_arg max_tasks = Inl (InvalidLiteral (segment 0 task_arg))"
  proof
    assume h: "CHR ''-'' \<in> set task_arg \<and> \<not> decimal_integer (segment 0 task_arg) \<and>
        digit_count (segment 0 task_arg) \<le> int_max_str_digits"
    then obtain p0 p1 rest where s: "split CHR ''-'' task_arg = p0 # p1 # rest"
      by (blast elim: split_two)
    with h have "py_int p0 = Inl (InvalidLiteral p0)"
      by (simp add: segment_def py_int_invalid)
    with h s show "parse_task_range task_arg max_tasks = Inl (InvalidLiteral (segment 0 task_arg))"
      by (simp add: parse_task_range_def parse_bounds_def segment_def)
  qed
  have 6: "CHR ''-'' \<in> set task_arg \<and> decimal_integer (segment 0 task_arg) \<and>
        digit_count (segment 0 task_arg) \<le> int_max_str_digits \<and>
        \<not> decimal_integer (segment 1 task_arg) \<and>
        digit_count (segment 1 task_arg) \<le> int_max_str_digits \<longrightarrow>
        parse_task_range task_arg max_tasks = Inl (InvalidLiteral (segment 1 task_arg))"
  proof
    assume h: "CHR ''-'' \<in> set task_arg \<and> decimal_integer (segment 0 task_arg) \<and>
        digit_count (segment 0 task_arg) \<le> int_max_str_digits \<and>
        \<not> decimal_integer (segment 1 task_arg) \<and>
        digit_count (segment 1 task_arg) \<le> int_max_str_digits"
    then obtain p0 p1 rest where s: "split CHR ''-'' task_arg = p0 # p1 # rest"
      by (blast elim: split_two)
    with h have "py_int p1 = Inl (InvalidLiteral p1)"
      by (simp add: segment_def py_int_invalid)
    moreover from h s obtain n where "py_int p0 = Inr n"
      using py_int_accepts [of p0] by (auto simp: segment_def)
    ultimately show "parse_task_range task_arg max_tasks =
        Inl (InvalidLiteral (segment 1 task_arg))"
      using h s by (simp add: parse_task_range_def parse_bounds_def segment_def)
  qed
  have 7: "CHR ''-'' \<notin> set task_arg \<and> \<not> decimal_integer task_arg \<and>
        digit_count task_arg \<le> int_max_str_digits \<longrightarrow>
        parse_task_range task_arg max_tasks = Inl (InvalidLiteral task_arg)"
    by (simp add: parse_task_range_def parse_bounds_def py_int_invalid)
  have 8: "segment 0 ''-3'' = []"
    by (simp add: segment_def)
  have 9: "parse_task_range ''-3'' max_tasks = Inl (InvalidLiteral [])"
    by (simp add: parse_defs)
  have 10: "parse_task_range [CHR 0xA0, CHR ''5''] max_tasks =
       (if 5 \<le> max_tasks then Inr (5, 5)
        else Inl (InvalidTaskRange [CHR 0xA0, CHR ''5''] max_tasks))"
    by (simp add: parse_defs)
  show ?thesis
    by (intro conjI)
      (fact 1, fact 2, fact 3, fact 4, fact 5, fact 6, fact 7, fact 8, fact 9, fact 10)
qed

theorem parse_task_range_segments_witness:
  "2 \<le> count_list ''2-4-9'' CHR ''-''
   \<and> parse_bounds ''2-4-9'' = parse_bounds ''2-4''
   \<and> parse_task_range ''2-4-9'' 5 = Inr (2, 4)
   \<and> \<not> decimal_integer (segment 0 ''x-4'') \<and> parse_task_range ''x-4'' 5 = Inl (InvalidLiteral ''x'')
   \<and> decimal_integer (segment 0 ''4-1.5'') \<and> \<not> decimal_integer (segment 1 ''4-1.5'')
   \<and> parse_task_range ''4-1.5'' 5 = Inl (InvalidLiteral ''1.5'')
   \<and> \<not> decimal_integer ''abc'' \<and> parse_task_range ''abc'' 5 = Inl (InvalidLiteral ''abc'')"
proof -
  have c: "2 \<le> count_list ''2-4-9'' CHR ''-''"
    by simp
  have s: "segment 0 ''2-4-9'' = ''2''" "segment 1 ''2-4-9'' = ''4''"
    "segment 0 ''x-4'' = ''x''" "segment 0 ''4-1.5'' = ''4''" "segment 1 ''4-1.5'' = ''1.5''"
    by (simp_all add: segment_def)
  have d: "\<not> decimal_integer ''x''" "decimal_integer ''4''" "\<not> decimal_integer ''1.5''"
    "\<not> decimal_integer ''abc''"
    by (simp_all add: decimal_integer_def strip_def is_space_def is_digit_def)
  have k: "digit_count ''x'' \<le> int_max_str_digits" "digit_count ''4'' \<le> int_max_str_digits"
    "digit_count ''1.5'' \<le> int_max_str_digits" "digit_count ''abc'' \<le> int_max_str_digits"
    by (simp_all add: digit_count_def int_max_str_digits_def)
  have r: "parse_task_range ''2-4-9'' 5 = Inr (2, 4)"
    by (simp add: parse_defs)
  from c s parse_task_range_segments [of "''2-4-9''" 5]
  have 1: "parse_bounds ''2-4-9'' = parse_bounds ''2-4''"
    by simp
  from s d k parse_task_range_segments [of "''x-4''" 5]
  have 2: "parse_task_range ''x-4'' 5 = Inl (InvalidLiteral ''x'')"
    by simp
  from s d k parse_task_range_segments [of "''4-1.5''" 5]
  have 3: "parse_task_range ''4-1.5'' 5 = Inl (InvalidLiteral ''1.5'')"
    by simp
  from d k parse_task_range_segments [of "''abc''" 5]
  have 4: "parse_task_range ''abc'' 5 = Inl (InvalidLiteral ''abc'')"
    by simp
  from c s d r 1 2 3 4 show ?thesis
    by simp
qed

section \<open>Properties of the loop over the tasks\<close>

lemma run_task_unfold:
  assumes "run_agent model_id task provider (start_task core task (world st)) = (r, w2)"
    and "complete_task core task w2 = (ev, w3)"
  shows "run_task run_agent core model_id provider (task_num, task) st =
     (score_of ev,
      \<lparr>world = w3, trace = trace st @ task_events model_id provider task_num task r ev,
       completed_count = Suc (completed_count st), stopped_early = stopped_early st\<rparr>)"
  using assms
  by (cases r; cases ev) (simp_all add: run_task_def emit_def task_events_def)

lemma started_append: "started (xs @ ys) = started xs @ started ys"
  by (induction xs rule: started.induct) simp_all

lemma completed_append: "completed (xs @ ys) = completed xs @ completed ys"
  by (induction xs rule: completed.induct) simp_all

lemma submitted_append: "submitted (xs @ ys) = (submitted xs \<or> submitted ys)"
  by (induction xs rule: submitted.induct) simp_all

lemma sequential_append:
  "sequential (xs @ ys) cur = (case sequential xs cur of None \<Rightarrow> None | Some c \<Rightarrow> sequential ys c)"
  by (induction xs cur rule: sequential.induct) simp_all

lemma task_events_started: "started (task_events m p n t r ev) = [t]"
  by (cases r; cases ev) (simp_all add: task_events_def)

lemma task_events_completed: "completed (task_events m p n t r ev) = [(t, ev)]"
  by (cases r; cases ev) (simp_all add: task_events_def)

lemma task_events_submitted: "\<not> submitted (task_events m p n t r ev)"
  by (cases r; cases ev) (simp_all add: task_events_def)

lemma task_events_sequential: "sequential (task_events m p n t r ev) None = Some None"
  by (cases r; cases ev) (simp_all add: task_events_def)


lemma run_tasks_Cons:
  assumes "run_agent model_id task provider (start_task core task (world st)) = (r, w2)"
    and "complete_task core task w2 = (ev, w3)"
  shows "run_tasks run_agent core model_id provider stop_on_fail ((task_num, task) # rest) st =
     (if stop_on_fail \<and> score_of ev = 0
      then (after_task st w3
              (task_events model_id provider task_num task r ev @ [Print_stopping task_num]))
           \<lparr>stopped_early := True\<rparr>
      else run_tasks run_agent core model_id provider stop_on_fail rest
             (after_task st w3 (task_events model_id provider task_num task r ev)))"
  by (simp add: run_task_unfold [where run_agent = run_agent, OF assms] emit_def after_task_def)

text \<open>Induction over the loop: one step for each task, with what the outside returned.\<close>

lemma loop_induct [consumes 0, case_names Nil Cons]:
  assumes "\<And>st. P [] st"
    and "\<And>task_num task rest st r w2 ev w3.
      run_agent model_id task provider (start_task core task (world st)) = (r, w2) \<Longrightarrow>
      complete_task core task w2 = (ev, w3) \<Longrightarrow>
      P rest (after_task st w3 (task_events model_id provider task_num task r ev)) \<Longrightarrow>
      P ((task_num, task) # rest) st"
  shows "P to_run (st :: 'w run)"
proof (induction to_run arbitrary: st)
  case Nil
  show ?case by (rule assms(1))
next
  case (Cons nt rest)
  obtain task_num task where nt: "nt = (task_num, task)"
    by (cases nt)
  obtain r w2 where a: "run_agent model_id task provider (start_task core task (world st)) = (r, w2)"
    by (cases "run_agent model_id task provider (start_task core task (world st))")
  obtain ev w3 where c: "complete_task core task w2 = (ev, w3)"
    by (cases "complete_task core task w2")
  show ?case
    unfolding nt by (rule assms(2) [OF a c Cons])
qed

lemma trace_run_tasks:
  "trace (run_tasks run_agent core model_id provider stop_on_fail to_run st) =
     trace st @ loop_events run_agent core model_id provider stop_on_fail to_run st"
proof -
  have "\<exists>evs. trace (run_tasks run_agent core model_id provider stop_on_fail to_run st) = trace st @ evs"
  proof (induction to_run st rule: loop_induct [where run_agent = run_agent and core = core
        and model_id = model_id and provider = provider])
    case (Nil st)
    show ?case by simp
  next
    case (Cons task_num task rest st r w2 ev w3)
    then show ?case
      by (auto simp: run_tasks_Cons [where run_agent = run_agent, OF Cons(1,2)] after_task_def
          simp del: run_tasks.simps)
  qed
  then show ?thesis
    by (auto simp: loop_events_def)
qed

lemma loop_events_Nil [simp]:
  "loop_events run_agent core model_id provider stop_on_fail [] st = []"
  by (simp add: loop_events_def)

lemma loop_events_Cons:
  assumes "run_agent model_id task provider (start_task core task (world st)) = (r, w2)"
    and "complete_task core task w2 = (ev, w3)"
  shows "loop_events run_agent core model_id provider stop_on_fail ((task_num, task) # rest) st =
     task_events model_id provider task_num task r ev @
     (if stop_on_fail \<and> score_of ev = 0 then [Print_stopping task_num]
      else loop_events run_agent core model_id provider stop_on_fail rest
             (after_task st w3 (task_events model_id provider task_num task r ev)))"
proof -
  let ?st' = "after_task st w3 (task_events model_id provider task_num task r ev)"
  have "trace (run_tasks run_agent core model_id provider stop_on_fail rest ?st') =
      trace ?st' @ loop_events run_agent core model_id provider stop_on_fail rest ?st'"
    by (rule trace_run_tasks)
  then show ?thesis
    unfolding loop_events_def [of _ _ _ _ _ "(task_num, task) # rest"]
    by (simp add: run_tasks_Cons [where run_agent = run_agent, OF assms] after_task_def
        del: run_tasks.simps)
qed

lemma scores_append: "scores (xs @ ys) = scores xs @ scores ys"
  by (simp add: scores_def completed_append)

lemma task_events_scores: "scores (task_events m p n t r ev) = [score_of ev]"
  by (simp add: scores_def task_events_completed)

lemmas trace_simps =
  started_append completed_append submitted_append scores_append
  task_events_started task_events_completed task_events_submitted task_events_scores

text \<open>The tasks started are the first tasks of the list, in its order.\<close>

lemma loop_started_prefix:
  "started (loop_events run_agent core model_id provider stop_on_fail to_run st) =
     take (length (started (loop_events run_agent core model_id provider stop_on_fail to_run st)))
       (map snd to_run)"
proof (induction to_run st rule: loop_induct [where run_agent = run_agent and core = core
      and model_id = model_id and provider = provider])
  case (Nil st)
  show ?case by simp
next
  case (Cons task_num task rest st r w2 ev w3)
  then show ?case
    by (simp add: loop_events_Cons [where run_agent = run_agent, OF Cons(1,2)] trace_simps)
qed

lemma loop_completed_started:
  "map fst (completed (loop_events run_agent core model_id provider stop_on_fail to_run st)) =
     started (loop_events run_agent core model_id provider stop_on_fail to_run st)"
proof (induction to_run st rule: loop_induct [where run_agent = run_agent and core = core
      and model_id = model_id and provider = provider])
  case (Nil st)
  show ?case by simp
next
  case (Cons task_num task rest st r w2 ev w3)
  then show ?case
    by (simp add: loop_events_Cons [where run_agent = run_agent, OF Cons(1,2)] trace_simps)
qed

lemma loop_not_submitted:
  "\<not> submitted (loop_events run_agent core model_id provider stop_on_fail to_run st)"
proof (induction to_run st rule: loop_induct [where run_agent = run_agent and core = core
      and model_id = model_id and provider = provider])
  case (Nil st)
  show ?case by simp
next
  case (Cons task_num task rest st r w2 ev w3)
  then show ?case
    by (simp add: loop_events_Cons [where run_agent = run_agent, OF Cons(1,2)] trace_simps)
qed

lemma loop_sequential:
  "sequential (loop_events run_agent core model_id provider stop_on_fail to_run st) None = Some None"
proof (induction to_run st rule: loop_induct [where run_agent = run_agent and core = core
      and model_id = model_id and provider = provider])
  case (Nil st)
  show ?case by simp
next
  case (Cons task_num task rest st r w2 ev w3)
  then show ?case
    by (simp add: loop_events_Cons [where run_agent = run_agent, OF Cons(1,2)]
        sequential_append task_events_sequential)
qed

text \<open>With the flag set, no score before the last one is 0.\<close>

lemma loop_scores_nonzero:
  "stop_on_fail \<Longrightarrow>
   0 \<notin> set (butlast (scores (loop_events run_agent core model_id provider stop_on_fail to_run st)))"
proof (induction to_run st rule: loop_induct [where run_agent = run_agent and core = core
      and model_id = model_id and provider = provider])
  case (Nil st)
  show ?case by (simp add: scores_def)
next
  case (Cons task_num task rest st r w2 ev w3)
  then show ?case
    by (auto simp: loop_events_Cons [where run_agent = run_agent, OF Cons(1,2)] trace_simps
        scores_def)
qed

text \<open>A run that leaves tasks of the list out ends on a score of 0, with the flag set.\<close>

lemma loop_stops_only_on_zero:
  "length (started (loop_events run_agent core model_id provider stop_on_fail to_run st))
     < length to_run \<Longrightarrow>
   stop_on_fail \<and>
   scores (loop_events run_agent core model_id provider stop_on_fail to_run st) \<noteq> [] \<and>
   last (scores (loop_events run_agent core model_id provider stop_on_fail to_run st)) = 0"
proof (induction to_run st rule: loop_induct [where run_agent = run_agent and core = core
      and model_id = model_id and provider = provider])
  case (Nil st)
  then show ?case by simp
next
  case (Cons task_num task rest st r w2 ev w3)
  then show ?case
    by (auto simp: loop_events_Cons [where run_agent = run_agent, OF Cons(1,2)] trace_simps
        scores_def split: if_splits)
qed

lemma loop_stopped_early:
  "stopped_early (run_tasks run_agent core model_id provider stop_on_fail to_run st) =
     (stopped_early st \<or>
      stop_on_fail \<and>
      scores (loop_events run_agent core model_id provider stop_on_fail to_run st) \<noteq> [] \<and>
      last (scores (loop_events run_agent core model_id provider stop_on_fail to_run st)) = 0)"
proof (induction to_run st rule: loop_induct [where run_agent = run_agent and core = core
      and model_id = model_id and provider = provider])
  case (Nil st)
  then show ?case by (simp add: scores_def)
next
  case (Cons task_num task rest st r w2 ev w3)
  then show ?case
    by (auto simp: loop_events_Cons [where run_agent = run_agent, OF Cons(1,2)]
        run_tasks_Cons [where run_agent = run_agent, OF Cons(1,2)] trace_simps
        scores_def after_task_def simp del: run_tasks.simps split: if_splits)
qed

lemma loop_completed_count:
  "completed_count (run_tasks run_agent core model_id provider stop_on_fail to_run st) =
     completed_count st
     + length (started (loop_events run_agent core model_id provider stop_on_fail to_run st))"
proof (induction to_run st rule: loop_induct [where run_agent = run_agent and core = core
      and model_id = model_id and provider = provider])
  case (Nil st)
  then show ?case by simp
next
  case (Cons task_num task rest st r w2 ev w3)
  then show ?case
    by (auto simp: loop_events_Cons [where run_agent = run_agent, OF Cons(1,2)]
        run_tasks_Cons [where run_agent = run_agent, OF Cons(1,2)] trace_simps
        after_task_def simp del: run_tasks.simps split: if_splits)
qed

text \<open>
  The world after the loop is the world the calls of its trace produce, performed in the
  order of the trace from the world the loop started in.
\<close>

lemma replay_append:
  "replay run_agent core (xs @ ys) w =
     (case replay run_agent core xs w of None \<Rightarrow> None | Some w' \<Rightarrow> replay run_agent core ys w')"
  by (induction run_agent core xs w rule: replay.induct) (simp_all split: prod.splits)

lemma replay_task_events:
  assumes "run_agent model_id task provider (start_task core task w) = (r, w2)"
    and "complete_task core task w2 = (ev, w3)"
  shows "replay run_agent core (task_events model_id provider task_num task r ev) w = Some w3"
  using assms by (cases r; cases ev) (simp_all add: task_events_def)

lemma loop_world:
  "replay run_agent core (loop_events run_agent core model_id provider stop_on_fail to_run st)
     (world st) =
   Some (world (run_tasks run_agent core model_id provider stop_on_fail to_run st))"
proof (induction to_run st rule: loop_induct [where run_agent = run_agent and core = core
      and model_id = model_id and provider = provider])
  case (Nil st)
  show ?case by simp
next
  case (Cons task_num task rest st r w2 ev w3)
  have r: "replay run_agent core (task_events model_id provider task_num task r ev) (world st)
      = Some w3"
    using Cons(1,2) by (rule replay_task_events)
  have w: "world (after_task st w3 (task_events model_id provider task_num task r ev)) = w3"
    by (simp add: after_task_def)
  from Cons(3) r w show ?case
    by (simp add: loop_events_Cons [where run_agent = run_agent, OF Cons(1,2)]
        run_tasks_Cons [where run_agent = run_agent, OF Cons(1,2)] replay_append
        after_task_def del: run_tasks.simps)
qed

section \<open>The claims about the loop\<close>

lemmas demo_defs =
  demo_core_def demo_agent_def demo_args_def demo_tasks_def demo_to_run_def demo_start_def
  demo_core_zero_def demo_agent_ok_def

lemmas run_defs =
  main_def tasks_to_run_def model_id_of_def truthy_def run_task_def emit_def score_of_def
  loop_events_def scores_def session_name_def session_architecture_def Let_def

text \<open>Without the flag every task of the list is started.\<close>

lemma loop_runs_all:
  assumes "\<not> stop_on_fail"
  shows "started (loop_events run_agent core model_id provider stop_on_fail to_run st) =
     map snd to_run"
proof -
  let ?le = "loop_events run_agent core model_id provider stop_on_fail to_run st"
  have "\<not> length (started ?le) < length to_run"
    using assms loop_stops_only_on_zero [of run_agent core model_id provider stop_on_fail to_run st]
    by blast
  then show ?thesis
    using loop_started_prefix [of run_agent core model_id provider stop_on_fail to_run st]
    by (metis length_map linorder_not_less take_all_iff)
qed

text \<open>
  C5: with the stop-on-fail flag set the loop stops exactly at the first task whose score
  is 0. The score of a completed task is the \<open>score\<close> field of its evaluation (0 when
  there is none), and after a task whose evaluation has the score 0 the loop with the flag
  set stops, while it goes on to the rest of the list when the score is not 0 or the flag
  is unset. The tasks started are always the first tasks of the list, in its order, each
  with one score. With the flag set no score before the last one is 0 (nothing is started
  after a score of 0), a run that leaves out tasks of the list ends on a score of 0 (every
  task before the first such score is run), and the run counts as stopped early exactly
  when its last score is 0. With the flag unset every task of the list is started whatever
  the scores are, and the loop never records an early stop.
\<close>

theorem stop_on_fail_stops_at_first_zero:
  "(stop_on_fail \<longrightarrow>
      0 \<notin> set (butlast (scores (loop_events run_agent core model_id provider stop_on_fail to_run st)))
      \<and> (length (started (loop_events run_agent core model_id provider stop_on_fail to_run st))
            < length to_run \<longrightarrow>
          scores (loop_events run_agent core model_id provider stop_on_fail to_run st) \<noteq> [] \<and>
          last (scores (loop_events run_agent core model_id provider stop_on_fail to_run st)) = 0)
      \<and> stopped_early (run_tasks run_agent core model_id provider stop_on_fail to_run st) =
          (stopped_early st \<or>
           scores (loop_events run_agent core model_id provider stop_on_fail to_run st) \<noteq> [] \<and>
           last (scores (loop_events run_agent core model_id provider stop_on_fail to_run st)) = 0))
   \<and> (\<not> stop_on_fail \<longrightarrow>
      started (loop_events run_agent core model_id provider stop_on_fail to_run st) = map snd to_run
      \<and> stopped_early (run_tasks run_agent core model_id provider stop_on_fail to_run st) =
          stopped_early st)
   \<and> started (loop_events run_agent core model_id provider stop_on_fail to_run st) =
       take (length (started (loop_events run_agent core model_id provider stop_on_fail to_run st)))
         (map snd to_run)
   \<and> length (scores (loop_events run_agent core model_id provider stop_on_fail to_run st)) =
       length (started (loop_events run_agent core model_id provider stop_on_fail to_run st))
   \<and> scores (loop_events run_agent core model_id provider stop_on_fail to_run st) =
       map (\<lambda>(t, ev). case ev of None \<Rightarrow> 0 | Some e \<Rightarrow> score e)
         (completed (loop_events run_agent core model_id provider stop_on_fail to_run st))
   \<and> (run_agent model_id task provider (start_task core task (world st)) = (r, w2) \<and>
      complete_task core task w2 = (Some e, w3) \<longrightarrow>
        run_tasks run_agent core model_id provider stop_on_fail ((task_num, task) # rest) st =
          (if stop_on_fail \<and> score e = 0
           then (after_task st w3
                   (task_events model_id provider task_num task r (Some e)
                    @ [Print_stopping task_num]))
                \<lparr>stopped_early := True\<rparr>
           else run_tasks run_agent core model_id provider stop_on_fail rest
                  (after_task st w3 (task_events model_id provider task_num task r (Some e)))))"
proof -
  let ?le = "loop_events run_agent core model_id provider stop_on_fail to_run st"
  have len: "length (scores ?le) = length (started ?le)"
    using loop_completed_started [of run_agent core model_id provider stop_on_fail to_run st]
    by (metis length_map scores_def)
  have first: "(stop_on_fail \<longrightarrow>
      0 \<notin> set (butlast (scores ?le))
      \<and> (length (started ?le) < length to_run \<longrightarrow> scores ?le \<noteq> [] \<and> last (scores ?le) = 0)
      \<and> stopped_early (run_tasks run_agent core model_id provider stop_on_fail to_run st) =
          (stopped_early st \<or> scores ?le \<noteq> [] \<and> last (scores ?le) = 0))
   \<and> (\<not> stop_on_fail \<longrightarrow>
      started ?le = map snd to_run
      \<and> stopped_early (run_tasks run_agent core model_id provider stop_on_fail to_run st) =
          stopped_early st)
   \<and> started ?le = take (length (started ?le)) (map snd to_run)
   \<and> length (scores ?le) = length (started ?le)"
    using loop_scores_nonzero [of stop_on_fail run_agent core model_id provider to_run st]
      loop_stops_only_on_zero [of run_agent core model_id provider stop_on_fail to_run st]
      loop_stopped_early [of run_agent core model_id provider stop_on_fail to_run st]
      loop_runs_all [of stop_on_fail run_agent core model_id provider to_run st]
      loop_started_prefix [of run_agent core model_id provider stop_on_fail to_run st]
      len
    by blast
  have sc: "scores ?le =
       map (\<lambda>(t, ev). case ev of None \<Rightarrow> 0 | Some e \<Rightarrow> score e) (completed ?le)"
    by (simp add: scores_def score_of_def)
  have step: "run_agent model_id task provider (start_task core task (world st)) = (r, w2) \<and>
      complete_task core task w2 = (Some e, w3) \<longrightarrow>
        run_tasks run_agent core model_id provider stop_on_fail ((task_num, task) # rest) st =
          (if stop_on_fail \<and> score e = 0
           then (after_task st w3
                   (task_events model_id provider task_num task r (Some e)
                    @ [Print_stopping task_num]))
                \<lparr>stopped_early := True\<rparr>
           else run_tasks run_agent core model_id provider stop_on_fail rest
                  (after_task st w3 (task_events model_id provider task_num task r (Some e))))"
  proof
    assume h: "run_agent model_id task provider (start_task core task (world st)) = (r, w2) \<and>
      complete_task core task w2 = (Some e, w3)"
    then have a: "run_agent model_id task provider (start_task core task (world st)) = (r, w2)"
      and c: "complete_task core task w2 = (Some e, w3)"
      by simp_all
    show "run_tasks run_agent core model_id provider stop_on_fail ((task_num, task) # rest) st =
          (if stop_on_fail \<and> score e = 0
           then (after_task st w3
                   (task_events model_id provider task_num task r (Some e)
                    @ [Print_stopping task_num]))
                \<lparr>stopped_early := True\<rparr>
           else run_tasks run_agent core model_id provider stop_on_fail rest
                  (after_task st w3 (task_events model_id provider task_num task r (Some e))))"
      using run_tasks_Cons [where run_agent = run_agent, OF a c, of stop_on_fail task_num rest]
      by (simp add: score_of_def del: run_tasks.simps)
  qed
  from first sc step show ?thesis
    by (intro conjI) blast+
qed

theorem stop_on_fail_stops_at_first_zero_witness:
  "demo_agent_ok ''m'' (demo_tasks ! 1) ''p''
     (start_task demo_core_zero (demo_tasks ! 1) (world demo_start)) = (Finished, 2)
   \<and> complete_task demo_core_zero (demo_tasks ! 1) 2
       = (Some \<lparr>score = 0, logs = ''wrong total''\<rparr>, 3)
   \<and> started (trace (run_tasks demo_agent_ok demo_core_zero ''m'' ''p'' True
        [(2, demo_tasks ! 1), (3, demo_tasks ! 2)] demo_start)) = [demo_tasks ! 1]
   \<and> started (trace (run_tasks demo_agent_ok demo_core_zero ''m'' ''p'' False
        [(2, demo_tasks ! 1), (3, demo_tasks ! 2)] demo_start)) = [demo_tasks ! 1, demo_tasks ! 2]
   \<and> completed (loop_events demo_agent_ok demo_core_zero ''m'' ''p'' True demo_to_run demo_start)
       = [(demo_tasks ! 0, Some \<lparr>score = 1, logs = ''ok''\<rparr>),
          (demo_tasks ! 1, Some \<lparr>score = 0, logs = ''wrong total''\<rparr>)]
   \<and> scores (loop_events demo_agent_ok demo_core_zero ''m'' ''p'' True demo_to_run demo_start)
       = [1, 0]
   \<and> started (loop_events demo_agent_ok demo_core_zero ''m'' ''p'' True demo_to_run demo_start)
       = take 2 demo_tasks
   \<and> length (started (loop_events demo_agent_ok demo_core_zero ''m'' ''p'' True demo_to_run
        demo_start)) < length demo_to_run
   \<and> stopped_early (run_tasks demo_agent_ok demo_core_zero ''m'' ''p'' True demo_to_run
        demo_start)
   \<and> started (loop_events demo_agent_ok demo_core_zero ''m'' ''p'' False demo_to_run demo_start)
       = demo_tasks
   \<and> \<not> stopped_early (run_tasks demo_agent_ok demo_core_zero ''m'' ''p'' False demo_to_run
        demo_start)"
proof -
  have a: "demo_agent_ok ''m'' (demo_tasks ! 1) ''p''
     (start_task demo_core_zero (demo_tasks ! 1) (world demo_start)) = (Finished, 2)"
    by (simp add: demo_defs)
  have c: "complete_task demo_core_zero (demo_tasks ! 1) 2
       = (Some \<lparr>score = 0, logs = ''wrong total''\<rparr>, 3)"
    by (simp add: demo_defs)
  have z: "score \<lparr>score = 0, logs = ''wrong total''\<rparr> = 0"
    by simp
  note t = stop_on_fail_stops_at_first_zero [of True demo_agent_ok demo_core_zero "''m''" "''p''"
      demo_to_run demo_start "demo_tasks ! 1" Finished 2
      "\<lparr>score = 0, logs = ''wrong total''\<rparr>" 3 2 "[(3, demo_tasks ! 2)]"]
  note f = stop_on_fail_stops_at_first_zero [of False demo_agent_ok demo_core_zero "''m''" "''p''"
      demo_to_run demo_start "demo_tasks ! 1" Finished 2
      "\<lparr>score = 0, logs = ''wrong total''\<rparr>" 3 2 "[(3, demo_tasks ! 2)]"]
  from a c t have 1: "started (trace (run_tasks demo_agent_ok demo_core_zero ''m'' ''p'' True
        [(2, demo_tasks ! 1), (3, demo_tasks ! 2)] demo_start)) = [demo_tasks ! 1]"
    by (simp add: after_task_def task_events_def demo_start_def del: run_tasks.simps)
  from a c f have "run_tasks demo_agent_ok demo_core_zero ''m'' ''p'' False
        [(2, demo_tasks ! 1), (3, demo_tasks ! 2)] demo_start =
      run_tasks demo_agent_ok demo_core_zero ''m'' ''p'' False [(3, demo_tasks ! 2)]
        (after_task demo_start 3
           (task_events ''m'' ''p'' 2 (demo_tasks ! 1) Finished
              (Some \<lparr>score = 0, logs = ''wrong total''\<rparr>)))"
    by (simp del: run_tasks.simps)
  then have 2: "started (trace (run_tasks demo_agent_ok demo_core_zero ''m'' ''p'' False
        [(2, demo_tasks ! 1), (3, demo_tasks ! 2)] demo_start)) = [demo_tasks ! 1, demo_tasks ! 2]"
    by (simp add: run_defs demo_defs after_task_def task_events_def)
  have 3: "completed (loop_events demo_agent_ok demo_core_zero ''m'' ''p'' True demo_to_run demo_start)
       = [(demo_tasks ! 0, Some \<lparr>score = 1, logs = ''ok''\<rparr>),
          (demo_tasks ! 1, Some \<lparr>score = 0, logs = ''wrong total''\<rparr>)]"
    by (simp add: run_defs demo_defs)
  from 3 t have 4: "scores (loop_events demo_agent_ok demo_core_zero ''m'' ''p'' True demo_to_run
      demo_start) = [1, 0]"
    by simp
  have 5: "started (loop_events demo_agent_ok demo_core_zero ''m'' ''p'' True demo_to_run demo_start)
       = take 2 demo_tasks"
    by (simp add: run_defs demo_defs)
  have m: "map snd demo_to_run = demo_tasks" "length demo_to_run = 3"
    "\<not> stopped_early demo_start"
    by (simp_all add: demo_defs)
  from 4 5 m t f have 6: "stopped_early (run_tasks demo_agent_ok demo_core_zero ''m'' ''p'' True
        demo_to_run demo_start)
     \<and> started (loop_events demo_agent_ok demo_core_zero ''m'' ''p'' False demo_to_run demo_start)
       = demo_tasks
     \<and> \<not> stopped_early (run_tasks demo_agent_ok demo_core_zero ''m'' ''p'' False demo_to_run
        demo_start)"
    by simp
  from 5 m have 7: "length (started (loop_events demo_agent_ok demo_core_zero ''m'' ''p'' True
      demo_to_run demo_start)) < length demo_to_run"
    by (simp add: demo_defs)
  from a c 1 2 3 4 5 6 7 show ?thesis
    by blast
qed

text \<open>
  C7: the tasks run strictly one after the other. In the trace of the loop a task is
  started only when no task is in progress, the agent runs and a task is completed only
  for the task in progress, and no task is left in progress at the end; the tasks are
  started in the order of the list, and every task started is completed. The trace is
  what happens outside: performing its calls in its order, each on the world the call
  before it left and each returning what the trace records, leads from the world before
  the loop to the world after it. So the completion of a task has taken effect outside
  when the next task is started.
\<close>

theorem tasks_run_one_at_a_time:
  "sequential (loop_events run_agent core model_id provider stop_on_fail to_run st) None
     = Some None
   \<and> started (loop_events run_agent core model_id provider stop_on_fail to_run st) =
       take (length (started (loop_events run_agent core model_id provider stop_on_fail to_run st)))
         (map snd to_run)
   \<and> map fst (completed (loop_events run_agent core model_id provider stop_on_fail to_run st)) =
       started (loop_events run_agent core model_id provider stop_on_fail to_run st)
   \<and> replay run_agent core
        (loop_events run_agent core model_id provider stop_on_fail to_run st) (world st) =
       Some (world (run_tasks run_agent core model_id provider stop_on_fail to_run st))
   \<and> trace (run_tasks run_agent core model_id provider stop_on_fail to_run st) =
       trace st @ loop_events run_agent core model_id provider stop_on_fail to_run st"
  using loop_sequential [of run_agent core model_id provider stop_on_fail to_run st]
    loop_started_prefix [of run_agent core model_id provider stop_on_fail to_run st]
    loop_completed_started [of run_agent core model_id provider stop_on_fail to_run st]
    loop_world [of run_agent core model_id provider stop_on_fail to_run st]
    trace_run_tasks [of run_agent core model_id provider stop_on_fail to_run st]
  by blast

theorem tasks_run_one_at_a_time_witness:
  "outside_calls (loop_events demo_agent demo_core ''m'' ''p'' False (take 2 demo_to_run) demo_start)
     = [Call_start_task (demo_tasks ! 0),
        Call_run_agent ''m'' (demo_tasks ! 0) ''p'' Finished,
        Call_complete_task (demo_tasks ! 0) (Some \<lparr>score = 1, logs = ''ok''\<rparr>),
        Call_start_task (demo_tasks ! 1),
        Call_run_agent ''m'' (demo_tasks ! 1) ''p'' (Raised ''boom''),
        Call_complete_task (demo_tasks ! 1) None]
   \<and> sequential (loop_events demo_agent demo_core ''m'' ''p'' False (take 2 demo_to_run) demo_start)
       None = Some None
   \<and> world demo_start = 0
   \<and> world (run_tasks demo_agent demo_core ''m'' ''p'' False (take 2 demo_to_run) demo_start) = 6
   \<and> replay demo_agent demo_core
        (loop_events demo_agent demo_core ''m'' ''p'' False (take 2 demo_to_run) demo_start) 0
       = Some 6"
proof -
  have c: "outside_calls (loop_events demo_agent demo_core ''m'' ''p'' False (take 2 demo_to_run) demo_start)
     = [Call_start_task (demo_tasks ! 0),
        Call_run_agent ''m'' (demo_tasks ! 0) ''p'' Finished,
        Call_complete_task (demo_tasks ! 0) (Some \<lparr>score = 1, logs = ''ok''\<rparr>),
        Call_start_task (demo_tasks ! 1),
        Call_run_agent ''m'' (demo_tasks ! 1) ''p'' (Raised ''boom''),
        Call_complete_task (demo_tasks ! 1) None]"
    by (simp add: run_defs demo_defs outside_calls_def)
  have w0: "world demo_start = 0"
    by (simp add: demo_defs)
  have w: "world (run_tasks demo_agent demo_core ''m'' ''p'' False (take 2 demo_to_run) demo_start)
      = 6"
    by (simp add: run_defs demo_defs)
  from c w0 w
    tasks_run_one_at_a_time [of demo_agent demo_core "''m''" "''p''" False "take 2 demo_to_run"
      demo_start]
  show ?thesis
    by simp
qed

text \<open>A task completed without an evaluation contributes the score 0.\<close>

lemma completed_None_score:
  "(t, None) \<in> set (butlast (completed es)) \<Longrightarrow> 0 \<in> set (butlast (scores es))"
proof -
  assume "(t, None) \<in> set (butlast (completed es))"
  then have "(\<lambda>(t, ev). score_of ev) (t, None) \<in> (\<lambda>(t, ev). score_of ev) ` set (butlast (completed es))"
    by (rule imageI)
  then show ?thesis
    by (simp add: scores_def map_butlast [symmetric] score_of_def)
qed

text \<open>
  C9: a result without an evaluation has score 0. So when the completion of a task returns
  no evaluation and the stop-on-fail flag is set, the loop stops at that task: it records
  the early stop and starts none of the tasks after it. In any run with the flag set, every
  completed task before the last one has an evaluation.
\<close>

theorem missing_eval_counts_as_zero:
  "score_of None = 0
   \<and> (run_agent model_id task provider (start_task core task (world st)) = (r, w2) \<and>
      complete_task core task w2 = (None, w3) \<longrightarrow>
        fst (run_task run_agent core model_id provider (task_num, task) st) = 0
        \<and> run_tasks run_agent core model_id provider True ((task_num, task) # rest) st =
            (after_task st w3
               (task_events model_id provider task_num task r None @ [Print_stopping task_num]))
            \<lparr>stopped_early := True\<rparr>
        \<and> started (loop_events run_agent core model_id provider True ((task_num, task) # rest) st)
            = [task])
   \<and> (stop_on_fail \<longrightarrow>
        (\<forall>(t, ev) \<in> set (butlast (completed
             (loop_events run_agent core model_id provider stop_on_fail to_run st))). ev \<noteq> None))"
proof -
  have 1: "score_of None = 0"
    by (simp add: score_of_def)
  have 2: "fst (run_task run_agent core model_id provider (task_num, task) st) = 0
        \<and> run_tasks run_agent core model_id provider True ((task_num, task) # rest) st =
            (after_task st w3
               (task_events model_id provider task_num task r None @ [Print_stopping task_num]))
            \<lparr>stopped_early := True\<rparr>
        \<and> started (loop_events run_agent core model_id provider True ((task_num, task) # rest) st)
            = [task]"
    if h: "run_agent model_id task provider (start_task core task (world st)) = (r, w2) \<and>
      complete_task core task w2 = (None, w3)"
  proof -
    from h have a: "run_agent model_id task provider (start_task core task (world st)) = (r, w2)"
      and c: "complete_task core task w2 = (None, w3)"
      by simp_all
    show ?thesis
      by (simp add: run_task_unfold [where run_agent = run_agent, OF a c]
          run_tasks_Cons [where run_agent = run_agent, OF a c]
          loop_events_Cons [where run_agent = run_agent, OF a c] 1 trace_simps
          del: run_tasks.simps)
  qed
  have 3: "\<forall>(t, ev) \<in> set (butlast (completed
             (loop_events run_agent core model_id provider stop_on_fail to_run st))). ev \<noteq> None"
    if stop_on_fail
  proof (rule ballI)
    fix x
    assume x: "x \<in> set (butlast (completed
             (loop_events run_agent core model_id provider stop_on_fail to_run st)))"
    obtain t ev where tev: "x = (t, ev)"
      by (cases x)
    have "ev \<noteq> None"
    proof
      assume "ev = None"
      with x tev have "0 \<in> set (butlast (scores
             (loop_events run_agent core model_id provider stop_on_fail to_run st)))"
        by (simp add: completed_None_score)
      with loop_scores_nonzero [OF that, of run_agent core model_id provider to_run st]
      show False by simp
    qed
    with tev show "case x of (t, ev) \<Rightarrow> ev \<noteq> None"
      by simp
  qed
  from 2 have 4: "run_agent model_id task provider (start_task core task (world st)) = (r, w2) \<and>
      complete_task core task w2 = (None, w3) \<longrightarrow>
        fst (run_task run_agent core model_id provider (task_num, task) st) = 0
        \<and> run_tasks run_agent core model_id provider True ((task_num, task) # rest) st =
            (after_task st w3
               (task_events model_id provider task_num task r None @ [Print_stopping task_num]))
            \<lparr>stopped_early := True\<rparr>
        \<and> started (loop_events run_agent core model_id provider True ((task_num, task) # rest) st)
            = [task]"
    by (rule impI)
  from 3 have 5: "stop_on_fail \<longrightarrow>
        (\<forall>(t, ev) \<in> set (butlast (completed
             (loop_events run_agent core model_id provider stop_on_fail to_run st))). ev \<noteq> None)"
    by (rule impI)
  show ?thesis
    by (intro conjI) (fact 1, fact 4, fact 5)
qed


theorem missing_eval_counts_as_zero_witness:
  "demo_agent ''m'' (demo_tasks ! 1) ''p'' (start_task demo_core (demo_tasks ! 1) (world demo_start))
     = (Raised ''boom'', 2)
   \<and> complete_task demo_core (demo_tasks ! 1) 2 = (None, 3)
   \<and> started (loop_events demo_agent demo_core ''m'' ''p'' True [(2, demo_tasks ! 1), (3, demo_tasks ! 2)] demo_start)
       = [demo_tasks ! 1]
   \<and> stopped_early (run_tasks demo_agent demo_core ''m'' ''p'' True [(2, demo_tasks ! 1), (3, demo_tasks ! 2)] demo_start)
   \<and> completed (loop_events demo_agent demo_core ''m'' ''p'' True demo_to_run demo_start)
       = [(demo_tasks ! 0, Some \<lparr>score = 1, logs = ''ok''\<rparr>), (demo_tasks ! 1, None)]"
proof -
  have a: "demo_agent ''m'' (demo_tasks ! 1) ''p''
      (start_task demo_core (demo_tasks ! 1) (world demo_start)) = (Raised ''boom'', 2)"
    by (simp add: demo_defs)
  have c: "complete_task demo_core (demo_tasks ! 1) 2 = (None, 3)"
    by (simp add: demo_defs)
  have e: "completed (loop_events demo_agent demo_core ''m'' ''p'' True demo_to_run demo_start)
       = [(demo_tasks ! 0, Some \<lparr>score = 1, logs = ''ok''\<rparr>), (demo_tasks ! 1, None)]"
    by (simp add: run_defs demo_defs)
  from a c
    missing_eval_counts_as_zero [of demo_agent "''m''" "demo_tasks ! 1" "''p''" demo_core
      demo_start "Raised ''boom''" 2 3 2 "[(3, demo_tasks ! 2)]" True demo_to_run]
  have "started (loop_events demo_agent demo_core ''m'' ''p'' True [(2, demo_tasks ! 1), (3, demo_tasks ! 2)] demo_start)
       = [demo_tasks ! 1]
     \<and> stopped_early (run_tasks demo_agent demo_core ''m'' ''p'' True [(2, demo_tasks ! 1), (3, demo_tasks ! 2)] demo_start)"
    by (simp add: after_task_def del: run_tasks.simps)
  with a c e show ?thesis
    by simp
qed

section \<open>The claims about \<open>main\<close>\<close>

text \<open>\<open>main\<close> after its two calls for the session have returned.\<close>

lemma main_unfold:
  assumes "start_session core (session_name (model_id_of a))
             (session_architecture (arg_provider a)) w0 = (session_id, w1)"
    and "session_status core session_id w1 = (tasks, w2)"
  shows "main run_agent core a w0 =
     (let st2 = \<lparr>world = w2,
                  trace = [Call_start_session (session_name (model_id_of a))
                             (session_architecture (arg_provider a)) session_id,
                           Print_provider (arg_provider a) (model_id_of a),
                           Call_session_status session_id tasks,
                           Print_session_tasks (length tasks)],
                  completed_count = 0, stopped_early = False\<rparr>
      in if arg_list a then
           (None, emit (Print_available #
                        map (\<lambda>(i, task). Print_task_line (int i) task) (enumerate 1 tasks)) st2)
         else
           (case tasks_to_run a tasks of
              Inl e \<Rightarrow> (Some e, st2)
            | Inr (bounds, to_run) \<Rightarrow>
                (let st3 = (case bounds of
                              None \<Rightarrow> st2
                            | Some (start_idx, end_idx) \<Rightarrow>
                                emit [Print_running start_idx end_idx] st2);
                     st4 = run_tasks run_agent core (model_id_of a) (arg_provider a)
                             (arg_stop_on_fail a) to_run st3
                 in if arg_task a = None \<and> \<not> stopped_early st4 then
                      (None, emit [Call_submit_session session_id, Print_submitted session_id]
                               (st4\<lparr>world := submit_session core session_id (world st4)\<rparr>))
                    else
                      (None, emit [Print_not_submitted (completed_count st4) (length tasks)
                                     session_id] st4))))"
  using assms
  by (simp add: main_def Let_def emit_def split: sum.splits prod.splits option.splits)

lemma print_lines_no_call:
  "filter is_call (map (\<lambda>(i, task). Print_task_line (int i) task) xs) = []"
  by (induction xs) auto

lemma print_lines_not_submitted:
  "\<not> submitted (map (\<lambda>(i, task). Print_task_line (int i) task) xs)"
  by (induction xs) auto

lemma print_lines_started:
  "started (map (\<lambda>(i, task). Print_task_line (int i) task) xs) = []"
  by (induction xs) auto

lemma print_lines_completed:
  "completed (map (\<lambda>(i, task). Print_task_line (int i) task) xs) = []"
  by (induction xs) auto

lemma tasks_to_run_all:
  "tasks_to_run a tasks = Inr (None, to_run) \<Longrightarrow> map snd to_run = tasks"
  by (auto simp: tasks_to_run_def map_snd_enumerate o_def split_def
      split: if_splits sum.splits prod.splits)

lemma tasks_to_run_bounds:
  "tasks_to_run a tasks = Inr (Some b, to_run) \<Longrightarrow> truthy (arg_task a)"
  by (auto simp: tasks_to_run_def split: if_splits sum.splits prod.splits)

lemma tasks_to_run_error:
  "tasks_to_run a tasks = Inl e \<Longrightarrow> truthy (arg_task a)"
  by (auto simp: tasks_to_run_def split: if_splits sum.splits prod.splits)

lemma tasks_to_run_None:
  "tasks_to_run a tasks = Inr (None, to_run) \<Longrightarrow> \<not> truthy (arg_task a)"
  by (auto simp: tasks_to_run_def split: if_splits sum.splits prod.splits)

text \<open>The indices of a validated range lie within the list of tasks.\<close>

lemma tasks_to_run_in_range:
  assumes "tasks_to_run a tasks = Inr (Some (start_idx, end_idx), to_run)"
  shows "to_run = map (\<lambda>i. (i, tasks ! nat (i - 1))) [start_idx..end_idx]
    \<and> (\<forall>i \<in> set [start_idx..end_idx]. 0 \<le> i - 1 \<and> nat (i - 1) < length tasks)"
proof -
  from assms have t: "truthy (arg_task a)"
    by (rule tasks_to_run_bounds)
  with assms have p: "parse_task_range (the (arg_task a)) (int (length tasks))
      = Inr (start_idx, end_idx)"
    and r: "to_run = map (\<lambda>i. (i, tasks ! nat (i - 1))) [start_idx..end_idx]"
    by (auto simp: tasks_to_run_def split: sum.splits)
  from p have "1 \<le> start_idx \<and> start_idx \<le> end_idx \<and> end_idx \<le> int (length tasks)"
    by (auto simp: parse_task_range_def split: sum.splits if_splits)
  with r show ?thesis
    by auto
qed

lemma truthy_not_None: "truthy x \<Longrightarrow> x \<noteq> None"
  by (cases x) (simp_all add: truthy_def)


text \<open>A loop that did not stop early started every task of its list.\<close>

lemma loop_runs_all_unless_stopped:
  assumes "\<not> stopped_early (run_tasks run_agent core model_id provider stop_on_fail to_run st)"
  shows "started (loop_events run_agent core model_id provider stop_on_fail to_run st) =
     map snd to_run"
proof -
  let ?le = "loop_events run_agent core model_id provider stop_on_fail to_run st"
  have "\<not> length (started ?le) < length to_run"
    using assms loop_stops_only_on_zero [of run_agent core model_id provider stop_on_fail to_run st]
      loop_stopped_early [of run_agent core model_id provider stop_on_fail to_run st]
    by blast
  then show ?thesis
    using loop_started_prefix [of run_agent core model_id provider stop_on_fail to_run st]
    by (metis length_map linorder_not_less take_all_iff)
qed

text \<open>
  C1, as amended: the session is submitted if and only if the run is not a list-mode run,
  no task argument was given, and the loop did not stop early; in that case every task of
  the session was started and completed, in order. A run restricted by a task argument is
  left unsubmitted even when its range covers every task of the session.
\<close>

theorem submitted_iff_run_all:
  "submitted (trace (snd (main run_agent core a w0))) =
     (\<not> arg_list a \<and> arg_task a = None \<and> \<not> stopped_early (snd (main run_agent core a w0)))
   \<and> (submitted (trace (snd (main run_agent core a w0))) \<longrightarrow>
        started (trace (snd (main run_agent core a w0)))
          = status_tasks (trace (snd (main run_agent core a w0)))
        \<and> map fst (completed (trace (snd (main run_agent core a w0))))
          = status_tasks (trace (snd (main run_agent core a w0))))"
proof -
  obtain session_id w1 where s: "start_session core (session_name (model_id_of a))
             (session_architecture (arg_provider a)) w0 = (session_id, w1)"
    by (cases "start_session core (session_name (model_id_of a))
             (session_architecture (arg_provider a)) w0")
  obtain tasks w2 where t: "session_status core session_id w1 = (tasks, w2)"
    by (cases "session_status core session_id w1")
  note m = main_unfold [where run_agent = run_agent, OF s t]
  show ?thesis
  proof (cases "arg_list a")
    case True
    then show ?thesis
      by (simp add: m emit_def print_lines_not_submitted)
  next
    case nl: False
    show ?thesis
    proof (cases "tasks_to_run a tasks")
      case (Inl e)
      with nl tasks_to_run_error [OF Inl] show ?thesis
        by (auto simp: m dest: truthy_not_None)
    next
      case (Inr p)
      obtain bounds to_run where p: "p = (bounds, to_run)"
        by (cases p)
      show ?thesis
      proof (cases bounds)
        case None
        from Inr p None have tr: "map snd to_run = tasks"
          by (simp add: tasks_to_run_all)
        let ?st3 = "\<lparr>world = w2,
                  trace = [Call_start_session (session_name (model_id_of a))
                             (session_architecture (arg_provider a)) session_id,
                           Print_provider (arg_provider a) (model_id_of a),
                           Call_session_status session_id tasks,
                           Print_session_tasks (length tasks)],
                  completed_count = 0, stopped_early = False\<rparr>"
        let ?st4 = "run_tasks run_agent core (model_id_of a) (arg_provider a)
                             (arg_stop_on_fail a) to_run ?st3"
        let ?le = "loop_events run_agent core (model_id_of a) (arg_provider a)
                             (arg_stop_on_fail a) to_run ?st3"
        have tr4: "trace ?st4 = trace ?st3 @ ?le"
          by (rule trace_run_tasks)
        have ns: "\<not> submitted ?le"
          by (rule loop_not_submitted)
        have cs: "map fst (completed ?le) = started ?le"
          by (rule loop_completed_started)
        have all: "\<not> stopped_early ?st4 \<Longrightarrow> started ?le = tasks"
          using loop_runs_all_unless_stopped [of run_agent core "model_id_of a" "arg_provider a"
              "arg_stop_on_fail a" to_run ?st3] tr by simp
        from nl Inr p None show ?thesis
          using tr4 ns cs all
          by (auto simp: m emit_def Let_def trace_simps simp del: run_tasks.simps)
      next
        case (Some b)
        with Inr p have "arg_task a \<noteq> None"
          using tasks_to_run_bounds [of a tasks b to_run] by (auto dest: truthy_not_None)
        obtain start_idx end_idx where b: "b = (start_idx, end_idx)"
          by (cases b)
        let ?st3 = "\<lparr>world = w2,
                  trace = [Call_start_session (session_name (model_id_of a))
                             (session_architecture (arg_provider a)) session_id,
                           Print_provider (arg_provider a) (model_id_of a),
                           Call_session_status session_id tasks,
                           Print_session_tasks (length tasks),
                           Print_running start_idx end_idx],
                  completed_count = 0, stopped_early = False\<rparr>"
        let ?st4 = "run_tasks run_agent core (model_id_of a) (arg_provider a)
                             (arg_stop_on_fail a) to_run ?st3"
        let ?le = "loop_events run_agent core (model_id_of a) (arg_provider a)
                             (arg_stop_on_fail a) to_run ?st3"
        have tr4: "trace ?st4 = trace ?st3 @ ?le"
          by (rule trace_run_tasks)
        have ns: "\<not> submitted ?le"
          by (rule loop_not_submitted)
        from nl Inr p Some b \<open>arg_task a \<noteq> None\<close> show ?thesis
          using tr4 ns
          by (auto simp: m emit_def Let_def trace_simps simp del: run_tasks.simps)
      qed
    qed
  qed
qed


theorem submitted_iff_run_all_witness:
  "\<not> arg_list (demo_args None False False) \<and> arg_task (demo_args None False False) = None
   \<and> \<not> stopped_early (snd (main demo_agent demo_core (demo_args None False False) 0))
   \<and> submitted (trace (snd (main demo_agent demo_core (demo_args None False False) 0)))
   \<and> status_tasks (trace (snd (main demo_agent demo_core (demo_args None False False) 0)))
       = demo_tasks
   \<and> started (trace (snd (main demo_agent demo_core (demo_args None False False) 0)))
       = demo_tasks"
proof -
  have 1: "\<not> arg_list (demo_args None False False)"
    "arg_task (demo_args None False False) = None"
    by (simp_all add: demo_defs)
  have 2: "\<not> stopped_early (snd (main demo_agent demo_core (demo_args None False False) 0))"
    by (simp add: run_defs demo_defs enumerate_eq_zip)
  have 3: "status_tasks (trace (snd (main demo_agent demo_core (demo_args None False False) 0)))
       = demo_tasks"
    by (simp add: run_defs demo_defs enumerate_eq_zip)
  from 1 2 3 submitted_iff_run_all [of demo_agent demo_core "demo_args None False False" 0]
  show ?thesis
    by simp
qed

text \<open>
  The claim as it was stated fails: with the task argument \<open>"1-3"\<close> on a session of three
  tasks and no stop-on-fail flag, every task of the session is started and completed and
  the loop does not stop early, yet the session is not submitted.
\<close>

theorem full_range_not_submitted_counterexample:
  "fst (main demo_agent demo_core (demo_args (Some ''1-3'') False False) 0) = None
   \<and> status_tasks (trace (snd (main demo_agent demo_core (demo_args (Some ''1-3'') False False) 0)))
       = demo_tasks
   \<and> started (trace (snd (main demo_agent demo_core (demo_args (Some ''1-3'') False False) 0)))
       = demo_tasks
   \<and> map fst (completed
        (trace (snd (main demo_agent demo_core (demo_args (Some ''1-3'') False False) 0))))
       = demo_tasks
   \<and> \<not> stopped_early (snd (main demo_agent demo_core (demo_args (Some ''1-3'') False False) 0))
   \<and> \<not> submitted (trace (snd (main demo_agent demo_core (demo_args (Some ''1-3'') False False) 0)))"
  by (simp add: run_defs demo_defs parse_defs upto_rec1)

text \<open>
  C10: in list mode the session is started and its status queried before the tasks are
  listed, and these are the only two calls made outside: no task is started, run or
  completed, and the session is not submitted.
\<close>

theorem list_mode_starts_session:
  "arg_list a \<and>
   start_session core (session_name (model_id_of a)) (session_architecture (arg_provider a)) w0
     = (session_id, w1) \<and>
   session_status core session_id w1 = (tasks, w2) \<longrightarrow>
     main run_agent core a w0 =
       (None,
        \<lparr>world = w2,
         trace = [Call_start_session (session_name (model_id_of a))
                    (session_architecture (arg_provider a)) session_id,
                  Print_provider (arg_provider a) (model_id_of a),
                  Call_session_status session_id tasks,
                  Print_session_tasks (length tasks),
                  Print_available]
                 @ map (\<lambda>(i, task). Print_task_line (int i) task) (enumerate 1 tasks),
         completed_count = 0, stopped_early = False\<rparr>)
     \<and> outside_calls (trace (snd (main run_agent core a w0))) =
         [Call_start_session (session_name (model_id_of a))
            (session_architecture (arg_provider a)) session_id,
          Call_session_status session_id tasks]
     \<and> started (trace (snd (main run_agent core a w0))) = []
     \<and> completed (trace (snd (main run_agent core a w0))) = []
     \<and> \<not> submitted (trace (snd (main run_agent core a w0)))"
proof (rule impI)
  assume h: "arg_list a \<and>
   start_session core (session_name (model_id_of a)) (session_architecture (arg_provider a)) w0
     = (session_id, w1) \<and>
   session_status core session_id w1 = (tasks, w2)"
  then have l: "arg_list a"
    and s: "start_session core (session_name (model_id_of a))
      (session_architecture (arg_provider a)) w0 = (session_id, w1)"
    and t: "session_status core session_id w1 = (tasks, w2)"
    by simp_all
  have m: "main run_agent core a w0 =
       (None,
        \<lparr>world = w2,
         trace = [Call_start_session (session_name (model_id_of a))
                    (session_architecture (arg_provider a)) session_id,
                  Print_provider (arg_provider a) (model_id_of a),
                  Call_session_status session_id tasks,
                  Print_session_tasks (length tasks),
                  Print_available]
                 @ map (\<lambda>(i, task). Print_task_line (int i) task) (enumerate 1 tasks),
         completed_count = 0, stopped_early = False\<rparr>)"
    using l by (simp add: main_unfold [where run_agent = run_agent, OF s t] emit_def)
  show "main run_agent core a w0 =
       (None,
        \<lparr>world = w2,
         trace = [Call_start_session (session_name (model_id_of a))
                    (session_architecture (arg_provider a)) session_id,
                  Print_provider (arg_provider a) (model_id_of a),
                  Call_session_status session_id tasks,
                  Print_session_tasks (length tasks),
                  Print_available]
                 @ map (\<lambda>(i, task). Print_task_line (int i) task) (enumerate 1 tasks),
         completed_count = 0, stopped_early = False\<rparr>)
     \<and> outside_calls (trace (snd (main run_agent core a w0))) =
         [Call_start_session (session_name (model_id_of a))
            (session_architecture (arg_provider a)) session_id,
          Call_session_status session_id tasks]
     \<and> started (trace (snd (main run_agent core a w0))) = []
     \<and> completed (trace (snd (main run_agent core a w0))) = []
     \<and> \<not> submitted (trace (snd (main run_agent core a w0)))"
    unfolding m
    by (simp add: outside_calls_def print_lines_no_call print_lines_started
        print_lines_completed print_lines_not_submitted)
qed

theorem list_mode_starts_session_witness:
  "arg_list (demo_args None False True)
   \<and> start_session demo_core (session_name (model_id_of (demo_args None False True)))
        (session_architecture (arg_provider (demo_args None False True))) 0 = (''ssn-1'', 1)
   \<and> session_status demo_core ''ssn-1'' 1 = (demo_tasks, 2)
   \<and> main demo_agent demo_core (demo_args None False True) 0 =
       (None,
        \<lparr>world = 2,
         trace = [Call_start_session ''LangChain Agent (openai/gpt-4o)''
                    ''LangChain create_agent with openrouter'' ''ssn-1'',
                  Print_provider ''openrouter'' ''openai/gpt-4o'',
                  Call_session_status ''ssn-1'' demo_tasks,
                  Print_session_tasks 3,
                  Print_available,
                  Print_task_line 1 (demo_tasks ! 0),
                  Print_task_line 2 (demo_tasks ! 1),
                  Print_task_line 3 (demo_tasks ! 2)],
         completed_count = 0, stopped_early = False\<rparr>)"
proof -
  have l: "arg_list (demo_args None False True)"
    by (simp add: demo_defs)
  have s: "start_session demo_core (session_name (model_id_of (demo_args None False True)))
        (session_architecture (arg_provider (demo_args None False True))) 0 = (''ssn-1'', 1)"
    by (simp add: demo_defs)
  have t: "session_status demo_core ''ssn-1'' 1 = (demo_tasks, 2)"
    by (simp add: demo_defs)
  from l s t
    list_mode_starts_session [of "demo_args None False True" demo_core 0 "''ssn-1''" 1
      demo_tasks 2 demo_agent]
  have "main demo_agent demo_core (demo_args None False True) 0 =
       (None,
        \<lparr>world = 2,
         trace = [Call_start_session (session_name (model_id_of (demo_args None False True)))
                    (session_architecture (arg_provider (demo_args None False True))) ''ssn-1'',
                  Print_provider (arg_provider (demo_args None False True))
                    (model_id_of (demo_args None False True)),
                  Call_session_status ''ssn-1'' demo_tasks,
                  Print_session_tasks (length demo_tasks),
                  Print_available]
                 @ map (\<lambda>(i, task). Print_task_line (int i) task) (enumerate 1 demo_tasks),
         completed_count = 0, stopped_early = False\<rparr>)"
    by blast
  then have "main demo_agent demo_core (demo_args None False True) 0 =
       (None,
        \<lparr>world = 2,
         trace = [Call_start_session ''LangChain Agent (openai/gpt-4o)''
                    ''LangChain create_agent with openrouter'' ''ssn-1'',
                  Print_provider ''openrouter'' ''openai/gpt-4o'',
                  Call_session_status ''ssn-1'' demo_tasks,
                  Print_session_tasks 3,
                  Print_available,
                  Print_task_line 1 (demo_tasks ! 0),
                  Print_task_line 2 (demo_tasks ! 1),
                  Print_task_line 3 (demo_tasks ! 2)],
         completed_count = 0, stopped_early = False\<rparr>)"
    by (simp add: demo_defs model_id_of_def truthy_def session_name_def
        session_architecture_def enumerate_eq_zip)
  with l s t show ?thesis
    by blast
qed

section \<open>Exceptions of the agent run\<close>

text \<open>
  C4, as amended: an exception raised by the agent run of a task is caught and logged
  with its traceback, the task is still completed through \<open>complete_task\<close> (with score
  0 when the result has no evaluation), and the exception does not end the loop: it
  proceeds to the next task, unless the stop-on-fail flag is set and the score of the task
  is 0.
\<close>

theorem agent_exception_is_caught:
  "run_agent model_id task provider (start_task core task (world st)) = (Raised e, w2) \<and>
   complete_task core task w2 = (ev, w3) \<longrightarrow>
      run_task run_agent core model_id provider (task_num, task) st =
        (score_of ev,
         after_task st w3
           ([Print_task_header task_num task, Call_start_task task,
             Call_run_agent model_id task provider (Raised e),
             Print_error e, Print_traceback, Call_complete_task task ev]
            @ (case ev of None \<Rightarrow> [] | Some x \<Rightarrow> [Print_score (score x) (logs x)])))
      \<and> score_of ev = (case ev of None \<Rightarrow> 0 | Some x \<Rightarrow> score x)
      \<and> run_tasks run_agent core model_id provider stop_on_fail ((task_num, task) # rest) st =
          (if stop_on_fail \<and> score_of ev = 0
           then (after_task st w3
                   (task_events model_id provider task_num task (Raised e) ev
                    @ [Print_stopping task_num]))
                \<lparr>stopped_early := True\<rparr>
           else run_tasks run_agent core model_id provider stop_on_fail rest
                  (after_task st w3 (task_events model_id provider task_num task (Raised e) ev)))"
proof
  assume h: "run_agent model_id task provider (start_task core task (world st)) = (Raised e, w2) \<and>
      complete_task core task w2 = (ev, w3)"
  then have a: "run_agent model_id task provider (start_task core task (world st)) = (Raised e, w2)"
    and c: "complete_task core task w2 = (ev, w3)"
    by simp_all
  have 1: "run_task run_agent core model_id provider (task_num, task) st =
        (score_of ev,
         after_task st w3
           ([Print_task_header task_num task, Call_start_task task,
             Call_run_agent model_id task provider (Raised e),
             Print_error e, Print_traceback, Call_complete_task task ev]
            @ (case ev of None \<Rightarrow> [] | Some x \<Rightarrow> [Print_score (score x) (logs x)])))"
    by (simp add: run_task_unfold [where run_agent = run_agent, OF a c] after_task_def
        task_events_def)
  have 2: "score_of ev = (case ev of None \<Rightarrow> 0 | Some x \<Rightarrow> score x)"
    by (simp add: score_of_def)
  note 3 = run_tasks_Cons [where run_agent = run_agent, OF a c, of stop_on_fail task_num rest]
  show "run_task run_agent core model_id provider (task_num, task) st =
        (score_of ev,
         after_task st w3
           ([Print_task_header task_num task, Call_start_task task,
             Call_run_agent model_id task provider (Raised e),
             Print_error e, Print_traceback, Call_complete_task task ev]
            @ (case ev of None \<Rightarrow> [] | Some x \<Rightarrow> [Print_score (score x) (logs x)])))
      \<and> score_of ev = (case ev of None \<Rightarrow> 0 | Some x \<Rightarrow> score x)
      \<and> run_tasks run_agent core model_id provider stop_on_fail ((task_num, task) # rest) st =
          (if stop_on_fail \<and> score_of ev = 0
           then (after_task st w3
                   (task_events model_id provider task_num task (Raised e) ev
                    @ [Print_stopping task_num]))
                \<lparr>stopped_early := True\<rparr>
           else run_tasks run_agent core model_id provider stop_on_fail rest
                  (after_task st w3 (task_events model_id provider task_num task (Raised e) ev)))"
    by (intro conjI) (fact 1, fact 2, fact 3)
qed

theorem agent_exception_is_caught_witness:
  "demo_agent ''m'' (demo_tasks ! 1) ''p'' (start_task demo_core (demo_tasks ! 1) (world demo_start))
     = (Raised ''boom'', 2)
   \<and> complete_task demo_core (demo_tasks ! 1) 2 = (None, 3)
   \<and> fst (run_task demo_agent demo_core ''m'' ''p'' (2, demo_tasks ! 1) demo_start) = 0
   \<and> trace (snd (run_task demo_agent demo_core ''m'' ''p'' (2, demo_tasks ! 1) demo_start))
       = [Print_task_header 2 (demo_tasks ! 1), Call_start_task (demo_tasks ! 1),
          Call_run_agent ''m'' (demo_tasks ! 1) ''p'' (Raised ''boom''),
          Print_error ''boom'', Print_traceback, Call_complete_task (demo_tasks ! 1) None]
   \<and> outside_calls (trace (run_tasks demo_agent demo_core ''m'' ''p'' False
        [(2, demo_tasks ! 1), (3, demo_tasks ! 2)] demo_start))
       = [Call_start_task (demo_tasks ! 1),
          Call_run_agent ''m'' (demo_tasks ! 1) ''p'' (Raised ''boom''),
          Call_complete_task (demo_tasks ! 1) None,
          Call_start_task (demo_tasks ! 2),
          Call_run_agent ''m'' (demo_tasks ! 2) ''p'' Finished,
          Call_complete_task (demo_tasks ! 2) (Some \<lparr>score = 1, logs = ''ok''\<rparr>)]"
proof -
  have a: "demo_agent ''m'' (demo_tasks ! 1) ''p''
      (start_task demo_core (demo_tasks ! 1) (world demo_start)) = (Raised ''boom'', 2)"
    by (simp add: demo_defs)
  have c: "complete_task demo_core (demo_tasks ! 1) 2 = (None, 3)"
    by (simp add: demo_defs)
  note inst = agent_exception_is_caught [of demo_agent "''m''" "demo_tasks ! 1" "''p''" demo_core
      demo_start "''boom''" 2 None 3 2 False "[(3, demo_tasks ! 2)]"]
  from a c inst
  have s: "fst (run_task demo_agent demo_core ''m'' ''p'' (2, demo_tasks ! 1) demo_start) = 0"
    and t: "trace (snd (run_task demo_agent demo_core ''m'' ''p'' (2, demo_tasks ! 1) demo_start))
       = [Print_task_header 2 (demo_tasks ! 1), Call_start_task (demo_tasks ! 1),
          Call_run_agent ''m'' (demo_tasks ! 1) ''p'' (Raised ''boom''),
          Print_error ''boom'', Print_traceback, Call_complete_task (demo_tasks ! 1) None]"
    by (simp_all add: after_task_def demo_start_def)
  from a c inst
  have "run_tasks demo_agent demo_core ''m'' ''p'' False
        [(2, demo_tasks ! 1), (3, demo_tasks ! 2)] demo_start =
      run_tasks demo_agent demo_core ''m'' ''p'' False [(3, demo_tasks ! 2)]
        (after_task demo_start 3 (task_events ''m'' ''p'' 2 (demo_tasks ! 1) (Raised ''boom'') None))"
    by (simp del: run_tasks.simps)
  then have "outside_calls (trace (run_tasks demo_agent demo_core ''m'' ''p'' False
        [(2, demo_tasks ! 1), (3, demo_tasks ! 2)] demo_start))
       = [Call_start_task (demo_tasks ! 1),
          Call_run_agent ''m'' (demo_tasks ! 1) ''p'' (Raised ''boom''),
          Call_complete_task (demo_tasks ! 1) None,
          Call_start_task (demo_tasks ! 2),
          Call_run_agent ''m'' (demo_tasks ! 2) ''p'' Finished,
          Call_complete_task (demo_tasks ! 2) (Some \<lparr>score = 1, logs = ''ok''\<rparr>)]"
    by (simp add: run_defs demo_defs outside_calls_def after_task_def task_events_def)
  with a c s t show ?thesis
    by simp
qed

text \<open>
  The claim as it was stated fails: with the stop-on-fail flag set, the agent raising on
  the second task of three and that task completed without an evaluation, the third task
  is never started.
\<close>

theorem agent_exception_stops_run_counterexample:
  "outside_calls (trace (snd (main demo_agent demo_core (demo_args None True False) 0)))
     = [Call_start_session ''LangChain Agent (openai/gpt-4o)''
          ''LangChain create_agent with openrouter'' ''ssn-1'',
        Call_session_status ''ssn-1'' demo_tasks,
        Call_start_task (demo_tasks ! 0),
        Call_run_agent ''openai/gpt-4o'' (demo_tasks ! 0) ''openrouter'' Finished,
        Call_complete_task (demo_tasks ! 0) (Some \<lparr>score = 1, logs = ''ok''\<rparr>),
        Call_start_task (demo_tasks ! 1),
        Call_run_agent ''openai/gpt-4o'' (demo_tasks ! 1) ''openrouter'' (Raised ''boom''),
        Call_complete_task (demo_tasks ! 1) None]
   \<and> demo_tasks ! 2 \<notin> set (started (trace (snd (main demo_agent demo_core
         (demo_args None True False) 0))))
   \<and> length demo_tasks = 3"
  by (simp add: run_defs demo_defs outside_calls_def enumerate_eq_zip)

section \<open>The claims about the tool adapters\<close>

lemmas json_defs =
  error_json_def json_dumps_str_def escape_ascii_def short_escape_def u_escape_def
  hex_digit_def model_dump_json_def quote_def escape_compact_def kept_def show_int_def

text \<open>
  C3: whenever the dispatch of an adapter fails, with an \<open>ApiException\<close> or with any
  other exception, the adapter returns \<open>error_json\<close> of the message, the JSON object
  \<open>{"error": message}\<close>, instead of raising; the returned value is the same for the two
  kinds of failure with the same message. This holds for each of the seven adapters.
\<close>

theorem adapters_report_errors_uniformly:
  "(dispatch (Req_ListProducts offset limit) w = (ApiException m, w') \<or>
    dispatch (Req_ListProducts offset limit) w = (OtherException m, w') \<longrightarrow>
      list_products dispatch offset limit w = (error_json m, w'))
   \<and> (dispatch Req_ViewBasket w = (ApiException m, w') \<or>
      dispatch Req_ViewBasket w = (OtherException m, w') \<longrightarrow>
      view_basket dispatch w = (error_json m, w'))
   \<and> (dispatch (Req_AddProductToBasket sku quantity) w = (ApiException m, w') \<or>
      dispatch (Req_AddProductToBasket sku quantity) w = (OtherException m, w') \<longrightarrow>
      add_product_to_basket dispatch sku quantity w = (error_json m, w'))
   \<and> (dispatch (Req_RemoveItemFromBasket sku quantity) w = (ApiException m, w') \<or>
      dispatch (Req_RemoveItemFromBasket sku quantity) w = (OtherException m, w') \<longrightarrow>
      remove_item_from_basket dispatch sku quantity w = (error_json m, w'))
   \<and> (dispatch (Req_ApplyCoupon coupon) w = (ApiException m, w') \<or>
      dispatch (Req_ApplyCoupon coupon) w = (OtherException m, w') \<longrightarrow>
      apply_coupon dispatch coupon w = (error_json m, w'))
   \<and> (dispatch Req_RemoveCoupon w = (ApiException m, w') \<or>
      dispatch Req_RemoveCoupon w = (OtherException m, w') \<longrightarrow>
      remove_coupon dispatch w = (error_json m, w'))
   \<and> (dispatch Req_CheckoutBasket w = (ApiException m, w') \<or>
      dispatch Req_CheckoutBasket w = (OtherException m, w') \<longrightarrow>
      checkout_basket dispatch w = (error_json m, w'))
   \<and> error_json m = [CHR ''{'', CHR 0x22] @ ''error'' @ [CHR 0x22, CHR '':'', CHR '' '']
        @ json_dumps_str m @ [CHR ''}'']"
proof -
  have 1: "dispatch (Req_ListProducts offset limit) w = (ApiException m, w') \<or>
    dispatch (Req_ListProducts offset limit) w = (OtherException m, w') \<longrightarrow>
      list_products dispatch offset limit w = (error_json m, w')"
    by (auto simp: list_products_def)
  have 2: "dispatch Req_ViewBasket w = (ApiException m, w') \<or>
      dispatch Req_ViewBasket w = (OtherException m, w') \<longrightarrow>
      view_basket dispatch w = (error_json m, w')"
    by (auto simp: view_basket_def)
  have 3: "dispatch (Req_AddProductToBasket sku quantity) w = (ApiException m, w') \<or>
      dispatch (Req_AddProductToBasket sku quantity) w = (OtherException m, w') \<longrightarrow>
      add_product_to_basket dispatch sku quantity w = (error_json m, w')"
    by (auto simp: add_product_to_basket_def)
  have 4: "dispatch (Req_RemoveItemFromBasket sku quantity) w = (ApiException m, w') \<or>
      dispatch (Req_RemoveItemFromBasket sku quantity) w = (OtherException m, w') \<longrightarrow>
      remove_item_from_basket dispatch sku quantity w = (error_json m, w')"
    by (auto simp: remove_item_from_basket_def)
  have 5: "dispatch (Req_ApplyCoupon coupon) w = (ApiException m, w') \<or>
      dispatch (Req_ApplyCoupon coupon) w = (OtherException m, w') \<longrightarrow>
      apply_coupon dispatch coupon w = (error_json m, w')"
    by (auto simp: apply_coupon_def)
  have 6: "dispatch Req_RemoveCoupon w = (ApiException m, w') \<or>
      dispatch Req_RemoveCoupon w = (OtherException m, w') \<longrightarrow>
      remove_coupon dispatch w = (error_json m, w')"
    by (auto simp: remove_coupon_def)
  have 7: "dispatch Req_CheckoutBasket w = (ApiException m, w') \<or>
      dispatch Req_CheckoutBasket w = (OtherException m, w') \<longrightarrow>
      checkout_basket dispatch w = (error_json m, w')"
    by (auto simp: checkout_basket_def)
  have 8: "error_json m = [CHR ''{'', CHR 0x22] @ ''error'' @ [CHR 0x22, CHR '':'', CHR '' '']
        @ json_dumps_str m @ [CHR ''}'']"
    by (simp add: error_json_def)
  show ?thesis
    by (intro conjI) (fact 1, fact 2, fact 3, fact 4, fact 5, fact 6, fact 7, fact 8)
qed

theorem adapters_report_errors_uniformly_witness:
  \<open>demo_store Req_CheckoutBasket 0 = (ApiException ''basket is empty'', 1)
   \<and> demo_store Req_RemoveCoupon 0 = (OtherException ''basket is empty'', 1)
   \<and> checkout_basket demo_store 0 = (''{"error": "basket is empty"}'', 1)
   \<and> remove_coupon demo_store 0 = (''{"error": "basket is empty"}'', 1)\<close>
proof -
  have a: "demo_store Req_CheckoutBasket 0 = (ApiException ''basket is empty'', 1)"
    and b: "demo_store Req_RemoveCoupon 0 = (OtherException ''basket is empty'', 1)"
    by (simp_all add: demo_store_def)
  have e: \<open>error_json ''basket is empty'' = ''{"error": "basket is empty"}''\<close>
    by (simp add: json_defs)
  from a b e
    adapters_report_errors_uniformly [of demo_store _ _ 0 "''basket is empty''" 1]
  show ?thesis
    by simp
qed

text \<open>The keys of a dumped model are the names of the fields that are kept.\<close>

lemma model_dump_keys:
  "json_keys (model_dump en eu (PModel fs)) =
     map fst (filter (\<lambda>(k, f). kept en eu f) fs)"
  by (simp add: o_def split_def)

text \<open>
  The dump of a value is the value written with the unset and the \<open>None\<close> fields of
  every model in it left out.
\<close>

lemma omits_model_dump:
  "j = model_dump True True v \<Longrightarrow> omits v j"
  "js = map (model_dump True True) vs \<Longrightarrow> omits_list vs js"
  "kvs = map (\<lambda>(k, s, v). (k, model_dump True True v)) (filter (\<lambda>(k, f). kept True True f) fs)
     \<Longrightarrow> omits_fields fs kvs"
  by (induction v j and vs js and fs kvs rule: omits_omits_list_omits_fields.induct)
    (auto simp: kept_def)

lemma concat_map_filter:
  "concat (map f (filter P xs)) = concat (map (\<lambda>x. if P x then f x else []) xs)"
  by (induction xs) simp_all

text \<open>The keys written at any depth are the names of the fields that are kept.\<close>

lemma all_keys_model_dump: "all_keys (model_dump True True v) = written v"
proof (induction v)
  case (PList vs)
  then have eq: "map (\<lambda>v. all_keys (model_dump True True v)) vs = map written vs"
    by (intro map_cong) simp_all
  have "all_keys (model_dump True True (PList vs)) =
      concat (map (\<lambda>v. all_keys (model_dump True True v)) vs)"
    by (simp add: o_def)
  also have "\<dots> = concat (map written vs)"
    by (simp only: eq)
  finally show ?case
    by simp
next
  case (PModel fs)
  have eq: "map (\<lambda>x. if kept True True (snd x)
                  then fst x # all_keys (model_dump True True (snd (snd x))) else []) fs =
        map (\<lambda>(k, s, v). if s \<and> v \<noteq> PNone then k # written v else []) fs"
  proof (intro map_cong refl)
    fix x
    assume x: "x \<in> set fs"
    obtain k s v where ksv: "x = (k, s, v)"
      by (cases x)
    with x PModel [of x "(s, v)" v] have "all_keys (model_dump True True v) = written v"
      by simp
    with ksv show "(if kept True True (snd x)
                  then fst x # all_keys (model_dump True True (snd (snd x))) else []) =
        (case x of (k, s, v) \<Rightarrow> if s \<and> v \<noteq> PNone then k # written v else [])"
      by (simp add: kept_def)
  qed
  have "all_keys (model_dump True True (PModel fs)) =
      concat (map (\<lambda>x. if kept True True (snd x)
                  then fst x # all_keys (model_dump True True (snd (snd x))) else []) fs)"
    by (simp add: concat_map_filter o_def split_def)
  also have "\<dots> =
      concat (map (\<lambda>(k, s, v). if s \<and> v \<noteq> PNone then k # written v else []) fs)"
    by (simp only: eq)
  finally show ?case
    by simp
qed simp_all

text \<open>
  C6, as amended: on a successful response each of the seven adapters returns the compact
  JSON text of the response dumped with \<open>exclude_none\<close> and \<open>exclude_unset\<close>. The keys
  of the returned object are exactly the names of the fields that were set and whose value
  is not \<open>None\<close>: no field that is unset or \<open>None\<close> appears as a key, and every field
  that is set to a value other than \<open>None\<close> does, an empty list or an empty string
  included. The same holds for every model nested in the response, at any depth: the
  returned object is the response written with the unset and the \<open>None\<close> fields of
  every model in it left out and nothing else, and the keys that occur in it are the names
  of the fields that are set to a value other than \<open>None\<close>.
\<close>

theorem adapters_omit_unset_and_none:
  "(dispatch (Req_ListProducts offset limit) w = (Response result, w') \<longrightarrow>
      list_products dispatch offset limit w = (model_dump_json True True result, w'))
   \<and> (dispatch Req_ViewBasket w = (Response result, w') \<longrightarrow>
      view_basket dispatch w = (model_dump_json True True result, w'))
   \<and> (dispatch (Req_AddProductToBasket sku quantity) w = (Response result, w') \<longrightarrow>
      add_product_to_basket dispatch sku quantity w = (model_dump_json True True result, w'))
   \<and> (dispatch (Req_RemoveItemFromBasket sku quantity) w = (Response result, w') \<longrightarrow>
      remove_item_from_basket dispatch sku quantity w = (model_dump_json True True result, w'))
   \<and> (dispatch (Req_ApplyCoupon coupon) w = (Response result, w') \<longrightarrow>
      apply_coupon dispatch coupon w = (model_dump_json True True result, w'))
   \<and> (dispatch Req_RemoveCoupon w = (Response result, w') \<longrightarrow>
      remove_coupon dispatch w = (model_dump_json True True result, w'))
   \<and> (dispatch Req_CheckoutBasket w = (Response result, w') \<longrightarrow>
      checkout_basket dispatch w = (model_dump_json True True result, w'))
   \<and> model_dump_json True True result = to_json (model_dump True True (PModel result))
   \<and> json_keys (model_dump True True (PModel result)) =
       map fst (filter (\<lambda>(k, s, v). s \<and> v \<noteq> PNone) result)
   \<and> (\<forall>(k, s, v) \<in> set result.
        distinct (map fst result) \<and> (\<not> s \<or> v = PNone) \<longrightarrow>
        k \<notin> set (json_keys (model_dump True True (PModel result))))
   \<and> (\<forall>(k, s, v) \<in> set result.
        s \<and> v \<noteq> PNone \<longrightarrow> k \<in> set (json_keys (model_dump True True (PModel result))))
   \<and> omits (PModel result) (model_dump True True (PModel result))
   \<and> all_keys (model_dump True True (PModel result)) = written (PModel result)"
proof -
  have keys: "json_keys (model_dump True True (PModel result)) =
       map fst (filter (\<lambda>(k, s, v). s \<and> v \<noteq> PNone) result)"
    by (simp add: o_def split_def kept_def)
  have out: "\<forall>(k, s, v) \<in> set result.
        distinct (map fst result) \<and> (\<not> s \<or> v = PNone) \<longrightarrow>
        k \<notin> set (json_keys (model_dump True True (PModel result)))"
  proof (intro ballI, clarify)
    fix k s v
    assume in1: "(k, s, v) \<in> set result" and d: "distinct (map fst result)"
      and bad: "\<not> s \<or> v = PNone"
      and "k \<in> set (json_keys (model_dump True True (PModel result)))"
    then obtain s' v' where in2: "(k, s', v') \<in> set result" and ok: "s'" "v' \<noteq> PNone"
      unfolding keys by auto
    from d in1 in2 have "(s, v) = (s', v')"
      by (meson eq_key_imp_eq_value)
    with bad ok show False by auto
  qed
  have inn: "\<forall>(k, s, v) \<in> set result.
        s \<and> v \<noteq> PNone \<longrightarrow> k \<in> set (json_keys (model_dump True True (PModel result)))"
    unfolding keys by force
  have 1: "dispatch (Req_ListProducts offset limit) w = (Response result, w') \<longrightarrow>
      list_products dispatch offset limit w = (model_dump_json True True result, w')"
    by (simp add: list_products_def)
  have 2: "dispatch Req_ViewBasket w = (Response result, w') \<longrightarrow>
      view_basket dispatch w = (model_dump_json True True result, w')"
    by (simp add: view_basket_def)
  have 3: "dispatch (Req_AddProductToBasket sku quantity) w = (Response result, w') \<longrightarrow>
      add_product_to_basket dispatch sku quantity w = (model_dump_json True True result, w')"
    by (simp add: add_product_to_basket_def)
  have 4: "dispatch (Req_RemoveItemFromBasket sku quantity) w = (Response result, w') \<longrightarrow>
      remove_item_from_basket dispatch sku quantity w = (model_dump_json True True result, w')"
    by (simp add: remove_item_from_basket_def)
  have 5: "dispatch (Req_ApplyCoupon coupon) w = (Response result, w') \<longrightarrow>
      apply_coupon dispatch coupon w = (model_dump_json True True result, w')"
    by (simp add: apply_coupon_def)
  have 6: "dispatch Req_RemoveCoupon w = (Response result, w') \<longrightarrow>
      remove_coupon dispatch w = (model_dump_json True True result, w')"
    by (simp add: remove_coupon_def)
  have 7: "dispatch Req_CheckoutBasket w = (Response result, w') \<longrightarrow>
      checkout_basket dispatch w = (model_dump_json True True result, w')"
    by (simp add: checkout_basket_def)
  have 8: "model_dump_json True True result = to_json (model_dump True True (PModel result))"
    by (simp add: model_dump_json_def)
  have 9: "omits (PModel result) (model_dump True True (PModel result))"
    by (rule omits_model_dump(1)) (rule refl)
  have 10: "all_keys (model_dump True True (PModel result)) = written (PModel result)"
    by (rule all_keys_model_dump)
  show ?thesis
    by (intro conjI)
      (fact 1, fact 2, fact 3, fact 4, fact 5, fact 6, fact 7, fact 8, fact keys, fact out,
        fact inn, fact 9, fact 10)
qed


theorem adapters_omit_unset_and_none_witness:
  \<open>demo_store Req_ViewBasket 0 = (Response demo_basket, 1)
   \<and> distinct (map fst demo_basket)
   \<and> (''Coupon'', True, PNone) \<in> set demo_basket
   \<and> (''Discount'', False, PInt 0) \<in> set demo_basket
   \<and> (''Total'', True, PInt 0) \<in> set demo_basket
   \<and> view_basket demo_store 0 = (''{"Items":[],"Total":0}'', 1)
   \<and> ''Coupon'' \<notin> set (json_keys (model_dump True True (PModel demo_basket)))
   \<and> ''Discount'' \<notin> set (json_keys (model_dump True True (PModel demo_basket)))
   \<and> ''Total'' \<in> set (json_keys (model_dump True True (PModel demo_basket)))
   \<and> demo_store (Req_ListProducts 0 10) 0 = (Response demo_products, 1)
   \<and> list_products demo_store 0 10 0 =
       (''{"Products":[{"Sku":"soda-6pk","Price":12,"Pack":6},{"Sku":"soda-1","Price":3}],"NextOffset":-1}'',
        1)
   \<and> all_keys (model_dump True True (PModel demo_products)) =
       [''Products'', ''Sku'', ''Price'', ''Pack'', ''Sku'', ''Price'', ''NextOffset'']\<close>
proof -
  have a: "demo_store Req_ViewBasket 0 = (Response demo_basket, 1)"
    by (simp add: demo_store_def)
  have d: "distinct (map fst demo_basket)"
    and c: "(''Coupon'', True, PNone) \<in> set demo_basket"
    and u: "(''Discount'', False, PInt 0) \<in> set demo_basket"
    and t: "(''Total'', True, PInt 0) \<in> set demo_basket"
    by (simp_all add: demo_basket_def)
  have j: \<open>model_dump_json True True demo_basket = ''{"Items":[],"Total":0}''\<close>
    by code_simp
  note inst = adapters_omit_unset_and_none [of demo_store 0 10 0 demo_basket 1]
  note view = inst [THEN conjunct2, THEN conjunct1]
  note out = inst [THEN conjunct2, THEN conjunct2, THEN conjunct2, THEN conjunct2,
      THEN conjunct2, THEN conjunct2, THEN conjunct2, THEN conjunct2, THEN conjunct2,
      THEN conjunct1]
  note inn = inst [THEN conjunct2, THEN conjunct2, THEN conjunct2, THEN conjunct2,
      THEN conjunct2, THEN conjunct2, THEN conjunct2, THEN conjunct2, THEN conjunct2,
      THEN conjunct2, THEN conjunct1]
  have v: "view_basket demo_store 0 = (model_dump_json True True demo_basket, 1)"
    using view a by (rule mp)
  have 1: \<open>view_basket demo_store 0 = (''{"Items":[],"Total":0}'', 1)\<close>
    by (simp only: v j)
  from out c d have 2: "''Coupon'' \<notin> set (json_keys (model_dump True True (PModel demo_basket)))"
    by blast
  from out u d have 3: "''Discount'' \<notin> set (json_keys (model_dump True True (PModel demo_basket)))"
    by blast
  from inn t have 4: "''Total'' \<in> set (json_keys (model_dump True True (PModel demo_basket)))"
    by fastforce
  have p: "demo_store (Req_ListProducts 0 10) 0 = (Response demo_products, 1)"
    by (simp add: demo_store_def)
  have jp: \<open>model_dump_json True True demo_products =
      ''{"Products":[{"Sku":"soda-6pk","Price":12,"Pack":6},{"Sku":"soda-1","Price":3}],"NextOffset":-1}''\<close>
    by code_simp
  note instp = adapters_omit_unset_and_none [of demo_store 0 10 0 demo_products 1]
  have e: "list_products demo_store 0 10 0 = (model_dump_json True True demo_products, 1)"
    using instp [THEN conjunct1] p by (rule mp)
  have 5: \<open>list_products demo_store 0 10 0 =
       (''{"Products":[{"Sku":"soda-6pk","Price":12,"Pack":6},{"Sku":"soda-1","Price":3}],"NextOffset":-1}'',
        1)\<close>
    by (simp only: e jp)
  have w: "written (PModel demo_products) =
       [''Products'', ''Sku'', ''Price'', ''Pack'', ''Sku'', ''Price'', ''NextOffset'']"
    by (simp add: demo_products_def)
  have 6: "all_keys (model_dump True True (PModel demo_products)) =
       [''Products'', ''Sku'', ''Price'', ''Pack'', ''Sku'', ''Price'', ''NextOffset'']"
    using instp [THEN conjunct2, THEN conjunct2, THEN conjunct2, THEN conjunct2,
      THEN conjunct2, THEN conjunct2, THEN conjunct2, THEN conjunct2, THEN conjunct2,
      THEN conjunct2, THEN conjunct2, THEN conjunct2] w
    by (rule trans)
  show ?thesis
    by (intro conjI) (fact a, fact d, fact c, fact u, fact t, fact 1, fact 2, fact 3, fact 4,
        fact p, fact 5, fact 6)
qed

text \<open>
  The claim as it was stated fails for empty values other than \<open>None\<close>: the field
  \<open>Items\<close> of an empty basket, set to the empty list, is a key of what \<open>view_basket\<close>
  returns.
\<close>

theorem empty_list_field_is_kept_counterexample:
  \<open>demo_store Req_ViewBasket 0 = (Response demo_basket, 1)
   \<and> (''Items'', True, PList []) \<in> set demo_basket
   \<and> is_empty (PList [])
   \<and> view_basket demo_store 0 = (''{"Items":[],"Total":0}'', 1)
   \<and> ''Items'' \<in> set (json_keys (model_dump True True (PModel demo_basket)))\<close>
  by (simp add: demo_store_def demo_basket_def view_basket_def json_defs show_nat.simps)

end
